theory Spec2Isabelle
  imports Main "HOL-Library.Word" "HOL-Library.Log_Nat"
begin

text \<open>
  The album track finder asks a text-generation provider for the track list of an album and
  turns the reply into tracks. This theory embeds the lookup of the component,
  \<^verbatim>\<open>fetchTracks\<close>: the prompt it sends, the reading of the response, the classification of
  the text and the parsing of its lines, for the component that keeps a number and a name for
  each track and, where they are compared, for the earlier one in \<^verbatim>\<open>src/App.jsx\<close> that keeps
  names only.
\<close>

section \<open>JavaScript strings\<close>

text \<open>
  A JavaScript string is a sequence of UTF-16 code units. The methods the component uses
  (\<^verbatim>\<open>trim\<close>, \<^verbatim>\<open>includes\<close>, \<^verbatim>\<open>split\<close>, the regular expressions without the
  \<^verbatim>\<open>u\<close> flag) all work on code units. \<open>js\<close> embeds an ASCII literal.
\<close>

type_synonym jschar = "16 word"
type_synonym jsstring = "jschar list"

definition js :: "string \<Rightarrow> jsstring" where
  "js s = map of_char s"

text \<open>The double quote, U+0022, kept apart from the literals.\<close>

definition quot :: jsstring where
  "quot = [0x22]"

text \<open>The apostrophe, U+0027, where it would end a literal.\<close>

definition apos :: jsstring where
  "apos = [0x27]"

text \<open>ECMAScript \<^verbatim>\<open>LineTerminator\<close>: LF, CR, LS, PS.\<close>

definition isLineTerminator :: "jschar \<Rightarrow> bool" where
  "isLineTerminator c \<longleftrightarrow> c = 0x000A \<or> c = 0x000D \<or> c = 0x2028 \<or> c = 0x2029"

text \<open>
  ECMAScript \<^verbatim>\<open>WhiteSpace\<close>: TAB, VT, FF, ZWNBSP and the Unicode category Zs
  (SP, NBSP, U+1680, U+2000 to U+200A, U+202F, U+205F, U+3000).
\<close>

definition isWhiteSpace :: "jschar \<Rightarrow> bool" where
  "isWhiteSpace c \<longleftrightarrow>
     c = 0x0009 \<or> c = 0x000B \<or> c = 0x000C \<or> c = 0x0020 \<or> c = 0x00A0 \<or> c = 0x1680 \<or>
     (0x2000 \<le> c \<and> c \<le> 0x200A) \<or> c = 0x202F \<or> c = 0x205F \<or> c = 0x3000 \<or> c = 0xFEFF"

text \<open>What \<^verbatim>\<open>trim\<close> strips and what \<^verbatim>\<open>\s\<close> matches: white space and line terminators.\<close>

definition isSpace :: "jschar \<Rightarrow> bool" where
  "isSpace c \<longleftrightarrow> isWhiteSpace c \<or> isLineTerminator c"

text \<open>\<^verbatim>\<open>\d\<close>: the ten ASCII digits.\<close>

definition isDigit :: "jschar \<Rightarrow> bool" where
  "isDigit c \<longleftrightarrow> 0x30 \<le> c \<and> c \<le> 0x39"

text \<open>\<^verbatim>\<open>.\<close> without the \<^verbatim>\<open>s\<close> flag: any code unit but a line terminator.\<close>

definition isDot :: "jschar \<Rightarrow> bool" where
  "isDot c \<longleftrightarrow> \<not> isLineTerminator c"

definition trim :: "jsstring \<Rightarrow> jsstring" where
  "trim s = rev (dropWhile isSpace (rev (dropWhile isSpace s)))"

text \<open>\<^verbatim>\<open>s.includes(sub)\<close>: \<open>sub\<close> occurs in \<open>s\<close> at some position.\<close>

fun str_includes :: "jsstring \<Rightarrow> jsstring \<Rightarrow> bool" where
  "str_includes [] sub = (sub = [])"
| "str_includes (c # cs) sub = (take (length sub) (c # cs) = sub \<or> str_includes cs sub)"

text \<open>\<^verbatim>\<open>s.split(sep)\<close> for a separator of one code unit; the result is never empty.\<close>

fun split :: "jschar \<Rightarrow> jsstring \<Rightarrow> jsstring list" where
  "split sep [] = [[]]"
| "split sep (c # cs) =
     (if c = sep then [] # split sep cs
      else (case split sep cs of [] \<Rightarrow> [[c]] | l # ls \<Rightarrow> (c # l) # ls))"

section \<open>Numbers\<close>

text \<open>
  The numbers of a track are non-negative: an array index plus one, or what
  \<^verbatim>\<open>parseInt(digits, 10)\<close> returns for a string of decimal digits. The latter is the double
  nearest to the integer the digits denote (ties to even), which is that integer up to
  \<open>2 ^ 53\<close> and \<^verbatim>\<open>Infinity\<close> from \<open>2 ^ 1024 - 2 ^ 970\<close> on.
\<close>

datatype jsnumber = Finite nat | Infinity

definition toNumber :: "nat \<Rightarrow> jsnumber" where
  "toNumber n =
     (if n < 2 ^ 53 then Finite n
      else
        let e = floorlog 2 n - 53;
            q = n div 2 ^ e;
            r = n mod 2 ^ e;
            h = 2 ^ (e - 1);
            q' = (if h < r \<or> (r = h \<and> odd q) then q + 1 else q)
        in if 2 ^ 1024 \<le> q' * 2 ^ e then Infinity else Finite (q' * 2 ^ e))"

definition digitsValue :: "jsstring \<Rightarrow> nat" where
  "digitsValue ds = foldl (\<lambda>n c. 10 * n + unat (c - 0x30)) 0 ds"

text \<open>\<^verbatim>\<open>parseInt(ds, 10)\<close> on a non-empty string of digits, the only use the code makes of it.\<close>

definition parseInt :: "jsstring \<Rightarrow> jsnumber" where
  "parseInt ds = toNumber (digitsValue ds)"

section \<open>The regular expressions\<close>

text \<open>
  \<^verbatim>\<open>/^(\d+)\.\s*(.+)$/\<close>, matched by backtracking as the engine does. \<open>match_rest s k\<close> lets
  \<^verbatim>\<open>\s*\<close> take \<open>k\<close> code units of \<open>s\<close> and \<^verbatim>\<open>(.+)$\<close> the others, and gives one unit
  back on failure; it is called with the longest run of white space first. \<open>match_digits s j\<close>
  does the same for \<^verbatim>\<open>(\d+)\<close>, which must be followed by the period U+002E. The result is the
  pair of the two groups.
\<close>

fun match_rest :: "jsstring \<Rightarrow> nat \<Rightarrow> jsstring option" where
  "match_rest s 0 = (if s \<noteq> [] \<and> list_all isDot s then Some s else None)"
| "match_rest s (Suc k) =
     (if drop (Suc k) s \<noteq> [] \<and> list_all isDot (drop (Suc k) s) then Some (drop (Suc k) s)
      else match_rest s k)"

fun match_digits :: "jsstring \<Rightarrow> nat \<Rightarrow> (jsstring \<times> jsstring) option" where
  "match_digits s 0 = None"
| "match_digits s (Suc j) =
     (case drop (Suc j) s of
        [] \<Rightarrow> match_digits s j
      | c # after \<Rightarrow>
          if c = 0x2E then
            (case match_rest after (length (takeWhile isSpace after)) of
               Some rest \<Rightarrow> Some (take (Suc j) s, rest)
             | None \<Rightarrow> match_digits s j)
          else match_digits s j)"

definition match_track :: "jsstring \<Rightarrow> (jsstring \<times> jsstring) option" where
  "match_track s = match_digits s (length (takeWhile isDigit s))"

text \<open>
  \<^verbatim>\<open>line.replace(/^\d+\.\s*/, '')\<close>: the prefix of digits, period and white space is removed
  when the line starts with digits and a period, and the line is left as it is otherwise.
\<close>

definition starts_numbered :: "jsstring \<Rightarrow> bool" where
  "starts_numbered s \<longleftrightarrow>
     takeWhile isDigit s \<noteq> [] \<and> dropWhile isDigit s \<noteq> [] \<and> hd (dropWhile isDigit s) = 0x2E"

definition strip_number :: "jsstring \<Rightarrow> jsstring" where
  "strip_number s =
     (if starts_numbered s then dropWhile isSpace (tl (dropWhile isDigit s)) else s)"

text \<open>
  The language of \<^verbatim>\<open>/^(\d+)\.\s*(.+)$/\<close>: \<open>s\<close> is digits \<open>ds\<close>, a period, white space
  \<open>ws\<close> and a remainder \<open>rest\<close> with no line terminator. It states what a match is,
  apart from the matcher above.
\<close>

definition matches_pattern :: "jsstring \<Rightarrow> jsstring \<Rightarrow> jsstring \<Rightarrow> jsstring \<Rightarrow> bool" where
  "matches_pattern s ds ws rest \<longleftrightarrow>
     s = ds @ [0x2E] @ ws @ rest \<and> ds \<noteq> [] \<and> list_all isDigit ds \<and> list_all isSpace ws \<and>
     rest \<noteq> [] \<and> list_all isDot rest"

section \<open>The prompt\<close>

text \<open>
  The template literal of the request body. Its lines after the first start with the sixteen
  spaces of the source's indentation.
\<close>

definition indent :: jsstring where
  "indent = js ''                ''"

definition buildPrompt :: "jsstring \<Rightarrow> jsstring \<Rightarrow> jsstring" where
  "buildPrompt artist album =
     js ''You are a music database assistant.\<newline>'' @
     indent @ js ''List the official tracklist for the studio album '' @ quot @ album @ quot @
       js '' by '' @ artist @ js ''.\<newline>'' @
     indent @ js ''Requirements:\<newline>'' @
     indent @ js ''- Use the original standard release (not deluxe, remastered, live, or bonus editions)\<newline>'' @
     indent @ js ''- Preserve the correct track order\<newline>'' @
     indent @ js ''- Provide ONLY the track names\<newline>'' @
     indent @ js ''- One track per line\<newline>'' @
     indent @ js ''- Number each track starting from 1\<newline>'' @
     indent @ js ''- Do NOT include any commentary, years, or extra text\<newline>'' @
     indent @ js ''If you are not confident in the exact official tracklist, reply exactly with:\<newline>'' @
     indent @ quot @ js ''I don't have information about this album.'' @ quot"

text \<open>The one-line prompt of \<^verbatim>\<open>src/App.jsx\<close>.\<close>

definition buildPrompt_App :: "jsstring \<Rightarrow> jsstring \<Rightarrow> jsstring" where
  "buildPrompt_App artist album =
     js ''List all the track names from the album '' @ quot @ album @ quot @ js '' by '' @ artist @
     js ''. Provide ONLY the track names, one per line, numbered. Do not include any additional information, explanations, or commentary. If you don't know the exact tracklist, please say '' @
     quot @ js ''I don't have information about this album.'' @ quot"

section \<open>The response normalizer\<close>

record track =
  number :: jsnumber
  name :: jsstring

datatype outcome = Found "track list" | NotFound | ProviderError jsstring

text \<open>The callback of \<^verbatim>\<open>map\<close>: \<open>index\<close> is the position of the line among the retained lines.\<close>

definition parse_line :: "nat \<Rightarrow> jsstring \<Rightarrow> track" where
  "parse_line index line =
     (let trimmedLine = trim line
      in case match_track trimmedLine of
           Some (digits, rest) \<Rightarrow> \<lparr>number = parseInt digits, name = trim rest\<rparr>
         | None \<Rightarrow> \<lparr>number = Finite (index + 1), name = trimmedLine\<rparr>)"

definition retained :: "jsstring \<Rightarrow> jsstring list" where
  "retained text = filter (\<lambda>line. trim line \<noteq> []) (split 0x0A text)"

definition trackList :: "jsstring \<Rightarrow> track list" where
  "trackList text =
     filter (\<lambda>track. length (name track) > 0)
       (map (\<lambda>(index, line). parse_line index line) (enumerate 0 (retained text)))"

definition unknown :: "jsstring \<Rightarrow> bool" where
  "unknown text \<longleftrightarrow>
     str_includes text (js ''don't have information'') \<or> str_includes text (js ''don't know'')"

definition normalizeText :: "jsstring \<Rightarrow> outcome" where
  "normalizeText text = (if unknown text then NotFound else Found (trackList text))"

text \<open>The normalizer of \<^verbatim>\<open>src/App.jsx\<close>, whose tracks are names only.\<close>

definition trackList_App :: "jsstring \<Rightarrow> jsstring list" where
  "trackList_App text =
     filter (\<lambda>line. length line > 0)
       (map (\<lambda>line. trim (strip_number line))
         (filter (\<lambda>line. trim line \<noteq> []) (split 0x0A text)))"

text \<open>
  The lines on which the two normalizers are compared. A line whose trimmed text matches the
  whole pattern does not begin with white space. A line that begins with digits and a period
  has, after trimming, a match of the whole pattern; the lines that have none are left aside.
\<close>

definition regular_line :: "jsstring \<Rightarrow> bool" where
  "regular_line line \<longleftrightarrow>
     (match_track (trim line) \<noteq> None \<longrightarrow> takeWhile isSpace line = []) \<and>
     (starts_numbered line \<longrightarrow> match_track (trim line) \<noteq> None)"

section \<open>The provider's response\<close>

text \<open>
  The value \<^verbatim>\<open>response.json()\<close> resolves to. A number is kept only as zero or not, which is
  all the code can observe of it (through \<^verbatim>\<open>||\<close>). The members of an object are listed in
  the order of the JSON text, where a later duplicate of a key wins.
\<close>

datatype numclass = Zero | NonZero

datatype jsvalue =
    JUndefined
  | JNull
  | JBoolean bool
  | JNumber numclass
  | JString jsstring
  | JArray "jsvalue list"
  | JObject "(jsstring \<times> jsvalue) list"

text \<open>
  The two ways the engine itself fails here: a property is read from \<^verbatim>\<open>null\<close> or
  \<^verbatim>\<open>undefined\<close> (the value and the key), or a value that is not a function is called (the
  callee as written).
\<close>

datatype fault = ReadOfNullish jsvalue jsstring | NotAFunction jsstring

text \<open>
  What is thrown inside the \<^verbatim>\<open>try\<close> block: an \<^verbatim>\<open>Error\<close> with its message (the one the
  code creates, or the rejection of \<^verbatim>\<open>fetch\<close> or of \<^verbatim>\<open>response.json()\<close>), or a
  \<^verbatim>\<open>TypeError\<close> of the engine, whose wording is the engine's own.
\<close>

datatype thrown = Error jsstring | TypeError fault

fun message :: "(fault \<Rightarrow> jsstring) \<Rightarrow> thrown \<Rightarrow> jsstring" where
  "message engine (Error m) = m"
| "message engine (TypeError f) = engine f"

text \<open>The wording of V8, as an example of an engine.\<close>

fun v8 :: "fault \<Rightarrow> jsstring" where
  "v8 (ReadOfNullish v key) =
     js ''Cannot read properties of '' @ (if v = JNull then js ''null'' else js ''undefined'') @
     js '' (reading '' @ apos @ key @ apos @ js '')''"
| "v8 (NotAFunction callee) = callee @ js '' is not a function''"

definition nullish :: "jsvalue \<Rightarrow> bool" where
  "nullish v \<longleftrightarrow> v = JUndefined \<or> v = JNull"

fun truthy :: "jsvalue \<Rightarrow> bool" where
  "truthy JUndefined = False"
| "truthy JNull = False"
| "truthy (JBoolean b) = b"
| "truthy (JNumber z) = (z = NonZero)"
| "truthy (JString s) = (s \<noteq> [])"
| "truthy (JArray vs) = True"
| "truthy (JObject kvs) = True"

text \<open>
  \<^verbatim>\<open>v.key\<close> for the keys \<^verbatim>\<open>candidates\<close>, \<^verbatim>\<open>content\<close>, \<^verbatim>\<open>parts\<close> and \<^verbatim>\<open>text\<close>, which no
  built-in prototype defines: an own member of an object, \<^verbatim>\<open>undefined\<close> on any other value,
  and a \<^verbatim>\<open>TypeError\<close> on \<^verbatim>\<open>null\<close> and \<^verbatim>\<open>undefined\<close>.
\<close>

fun get_member :: "jsstring \<Rightarrow> jsvalue \<Rightarrow> thrown + jsvalue" where
  "get_member key JUndefined = Inl (TypeError (ReadOfNullish JUndefined key))"
| "get_member key JNull = Inl (TypeError (ReadOfNullish JNull key))"
| "get_member key (JObject kvs) =
     Inr (case map_of (rev kvs) key of Some v \<Rightarrow> v | None \<Rightarrow> JUndefined)"
| "get_member key v = Inr JUndefined"

text \<open>\<^verbatim>\<open>v[0]\<close>: the first element of an array, the first code unit of a string.\<close>

fun index0 :: "jsvalue \<Rightarrow> thrown + jsvalue" where
  "index0 JUndefined = Inl (TypeError (ReadOfNullish JUndefined (js ''0'')))"
| "index0 JNull = Inl (TypeError (ReadOfNullish JNull (js ''0'')))"
| "index0 (JArray vs) = Inr (case vs of [] \<Rightarrow> JUndefined | v # _ \<Rightarrow> v)"
| "index0 (JString s) = Inr (case s of [] \<Rightarrow> JUndefined | c # _ \<Rightarrow> JString [c])"
| "index0 (JObject kvs) =
     Inr (case map_of (rev kvs) (js ''0'') of Some v \<Rightarrow> v | None \<Rightarrow> JUndefined)"
| "index0 v = Inr JUndefined"

text \<open>
  \<^verbatim>\<open>data.candidates[0]?.content?.parts[0]?.text\<close>. Each \<^verbatim>\<open>?.\<close> ends the rest of its chain
  with \<^verbatim>\<open>undefined\<close> on a nullish value; the plain accesses throw on one.
\<close>

definition text_path :: "jsvalue \<Rightarrow> thrown + jsvalue" where
  "text_path data =
     (case get_member (js ''candidates'') data of
        Inl e \<Rightarrow> Inl e
      | Inr candidates \<Rightarrow>
     (case index0 candidates of
        Inl e \<Rightarrow> Inl e
      | Inr candidate \<Rightarrow>
     (case (if nullish candidate then Inr JUndefined else get_member (js ''content'') candidate) of
        Inl e \<Rightarrow> Inl e
      | Inr content \<Rightarrow>
     (case (if nullish content then Inr JUndefined
            else (case get_member (js ''parts'') content of
                    Inl e \<Rightarrow> Inl e
                  | Inr parts \<Rightarrow> index0 parts)) of
        Inl e \<Rightarrow> Inl e
      | Inr part \<Rightarrow>
          if nullish part then Inr JUndefined else get_member (js ''text'') part))))"

text \<open>\<^verbatim>\<open>const text = ... || ''\<close>: a falsy value is replaced by the empty string.\<close>

definition extract_text :: "jsvalue \<Rightarrow> thrown + jsvalue" where
  "extract_text data =
     (case text_path data of
        Inl e \<Rightarrow> Inl e
      | Inr t \<Rightarrow> Inr (if truthy t then t else JString []))"

text \<open>
  The branch on \<^verbatim>\<open>text.includes(...)\<close> and the parsing. On a string this is \<open>normalizeText\<close>. An
  array has \<^verbatim>\<open>includes\<close> (an element equal to the phrase) but no \<^verbatim>\<open>split\<close>; any other
  value has no \<^verbatim>\<open>includes\<close>.
\<close>

fun classify :: "jsvalue \<Rightarrow> thrown + outcome" where
  "classify (JString s) = Inr (normalizeText s)"
| "classify (JArray vs) =
     (if JString (js ''don't have information'') \<in> set vs \<or> JString (js ''don't know'') \<in> set vs
      then Inr NotFound else Inl (TypeError (NotAFunction (js ''text.split''))))"
| "classify v = Inl (TypeError (NotAFunction (js ''text.includes'')))"

text \<open>
  What the provider call comes to: \<^verbatim>\<open>fetch\<close> rejects, or resolves to a response with its
  \<^verbatim>\<open>ok\<close> flag and the result of \<^verbatim>\<open>response.json()\<close>.
\<close>

datatype body = JsonRejected jsstring | Json jsvalue

datatype response = FetchRejected jsstring | Response bool body

fun try_block :: "response \<Rightarrow> thrown + outcome" where
  "try_block (FetchRejected m) = Inl (Error m)"
| "try_block (Response ok b) =
     (if \<not> ok then Inl (Error (js ''Failed to fetch from Gemini API. Please check your API key.''))
      else (case b of
              JsonRejected m \<Rightarrow> Inl (Error m)
            | Json data \<Rightarrow>
                (case extract_text data of
                   Inl e \<Rightarrow> Inl e
                 | Inr t \<Rightarrow> classify t)))"

text \<open>The \<^verbatim>\<open>try\<close> block with its \<^verbatim>\<open>catch\<close>: the outcome of one lookup.\<close>

definition lookupTracks :: "(fault \<Rightarrow> jsstring) \<Rightarrow> response \<Rightarrow> outcome" where
  "lookupTracks engine r =
     (case try_block r of
        Inl err \<Rightarrow>
          ProviderError
            (if message engine err \<noteq> [] then message engine err
             else js ''An error occurred while fetching tracks'')
      | Inr out \<Rightarrow> out)"

section \<open>The component\<close>

record state =
  apiKey :: jsstring
  showKey :: bool
  artist :: jsstring
  album :: jsstring
  tracks :: "track list"
  loading :: bool
  error :: jsstring

text \<open>
  \<^verbatim>\<open>fetchTracks\<close>, with the provider as a function of the credential and the prompt. The
  state it returns is the one after the \<^verbatim>\<open>finally\<close> block.
\<close>

definition fetchTracks ::
  "(fault \<Rightarrow> jsstring) \<Rightarrow> (jsstring \<Rightarrow> jsstring \<Rightarrow> response) \<Rightarrow> state \<Rightarrow> state" where
  "fetchTracks engine provider s =
     (if trim (apiKey s) = [] then s\<lparr>error := js ''Please enter your Gemini API key''\<rparr>
      else if trim (artist s) = [] \<or> trim (album s) = []
        then s\<lparr>error := js ''Please enter both artist and album name''\<rparr>
      else
        (case lookupTracks engine (provider (apiKey s) (buildPrompt (artist s) (album s))) of
           Found ts \<Rightarrow> s\<lparr>loading := False, error := [], tracks := ts\<rparr>
         | NotFound \<Rightarrow>
             s\<lparr>loading := False,
               error := js ''Album not found. Please check the artist and album name.'',
               tracks := []\<rparr>
         | ProviderError m \<Rightarrow> s\<lparr>loading := False, error := m, tracks := []\<rparr>))"

section \<open>Examples\<close>

text \<open>A reply of the shape the provider documents, with \<open>v\<close> in the place of the text.\<close>

definition reply_with :: "jsvalue \<Rightarrow> jsvalue" where
  "reply_with v =
     JObject [(js ''candidates'',
       JArray [JObject [(js ''content'',
         JObject [(js ''parts'', JArray [JObject [(js ''text'', v)]])])]])]"

definition gemini_reply :: "jsstring \<Rightarrow> jsvalue" where
  "gemini_reply t = reply_with (JString t)"

text \<open>A provider that gives the same response to every request.\<close>

definition answering :: "response \<Rightarrow> jsstring \<Rightarrow> jsstring \<Rightarrow> response" where
  "answering r key prompt = r"

definition abbey_road :: state where
  "abbey_road =
     \<lparr>apiKey = js ''key'', showKey = False, artist = js ''The Beatles'',
      album = js ''Abbey Road'', tracks = [], loading = False, error = []\<rparr>"

section \<open>Facts about strings\<close>

lemma not_space_digit: "isDigit c \<Longrightarrow> \<not> isSpace c"
  unfolding isDigit_def isSpace_def isWhiteSpace_def isLineTerminator_def
  by (auto simp: word_le_def word_less_def)

lemma period_not_digit: "\<not> isDigit 0x2E"
  by (simp add: isDigit_def)

lemma period_not_space: "\<not> isSpace 0x2E"
  by (simp add: isSpace_def isWhiteSpace_def isLineTerminator_def)

lemma space_not_digit: "isSpace c \<Longrightarrow> \<not> isDigit c"
  using not_space_digit by blast

lemma trim_Nil_iff: "trim s = [] \<longleftrightarrow> (\<forall>c \<in> set s. isSpace c)"
proof
  assume a: "trim s = []"
  have "dropWhile isSpace s = []"
  proof (rule ccontr)
    assume n: "dropWhile isSpace s \<noteq> []"
    then have h: "\<not> isSpace (hd (dropWhile isSpace s))" by (rule hd_dropWhile)
    have "hd (dropWhile isSpace s) \<in> set (dropWhile isSpace s)" using n by simp
    moreover have "\<forall>x \<in> set (dropWhile isSpace s). isSpace x"
      using a by (simp add: trim_def)
    ultimately show False using h by blast
  qed
  then show "\<forall>c \<in> set s. isSpace c" by simp
next
  assume "\<forall>c \<in> set s. isSpace c"
  then have d: "dropWhile isSpace s = []" by simp
  show "trim s = []" unfolding trim_def d by simp
qed

lemma trim_hd: "trim s \<noteq> [] \<Longrightarrow> \<not> isSpace (hd (trim s))"
proof -
  assume a: "trim s \<noteq> []"
  let ?d = "dropWhile isSpace s"
  have d: "?d \<noteq> []"
  proof
    assume e: "?d = []"
    have "trim s = []" unfolding trim_def e by simp
    then show False using a by simp
  qed
  then have h: "\<not> isSpace (hd ?d)" by (rule hd_dropWhile)
  obtain x xs where dx: "?d = x # xs" using d by (cases ?d) auto
  have nx: "\<not> isSpace x" using h dx by simp
  have "rev ?d = rev xs @ [x]" using dx by simp
  then have "dropWhile isSpace (rev ?d) = dropWhile isSpace (rev xs) @ [x]"
    using nx by (simp add: dropWhile_append)
  then have "trim s = x # rev (dropWhile isSpace (rev xs))" by (simp add: trim_def)
  then show ?thesis using nx by simp
qed

lemma trim_last: "trim s \<noteq> [] \<Longrightarrow> \<not> isSpace (last (trim s))"
proof -
  assume a: "trim s \<noteq> []"
  let ?r = "dropWhile isSpace (rev (dropWhile isSpace s))"
  have r: "?r \<noteq> []" using a by (simp add: trim_def)
  then have "\<not> isSpace (hd ?r)" by (rule hd_dropWhile)
  moreover have "last (trim s) = hd ?r" using r by (simp add: trim_def last_rev)
  ultimately show ?thesis by simp
qed

lemma trim_id: "s = [] \<or> (\<not> isSpace (hd s) \<and> \<not> isSpace (last s)) \<Longrightarrow> trim s = s"
proof (cases s)
  case Nil then show ?thesis by (simp add: trim_def)
next
  case (Cons x xs)
  assume "s = [] \<or> (\<not> isSpace (hd s) \<and> \<not> isSpace (last s))"
  with Cons have h: "\<not> isSpace x" and l: "\<not> isSpace (last s)" by auto
  have 1: "dropWhile isSpace s = s" using h Cons by simp
  obtain y ys where r: "rev s = y # ys" using Cons by (cases "rev s") auto
  have "hd (rev s) = last s" using Cons by (simp add: hd_rev)
  then have "y = last s" using r by simp
  then have "dropWhile isSpace (y # ys) = y # ys" using l by simp
  then have "dropWhile isSpace (rev s) = rev s" by (simp only: r)
  then show ?thesis using 1 by (simp add: trim_def)
qed

lemma trim_trim: "trim (trim s) = trim s"
  by (rule trim_id) (use trim_hd trim_last in blast)

lemma trim_dropWhile: "trim (dropWhile isSpace s) = trim s"
  by (simp add: trim_def)

lemma trim_append_spaces: "\<forall>c \<in> set sp. isSpace c \<Longrightarrow> trim (s @ sp) = trim s"
proof (induction sp rule: rev_induct)
  case Nil then show ?case by simp
next
  case (snoc x xs)
  have "trim (s @ xs @ [x]) = trim (s @ xs)"
  proof -
    have x: "isSpace x" using snoc.prems by simp
    show ?thesis
    proof (cases "\<forall>c \<in> set (s @ xs). isSpace c")
      case True
      then have "trim (s @ xs) = []" using trim_Nil_iff by blast
      moreover have "trim (s @ xs @ [x]) = []" using True x trim_Nil_iff[of "s @ xs @ [x]"] by auto
      ultimately show ?thesis by simp
    next
      case False
      then obtain c where "c \<in> set (s @ xs)" "\<not> isSpace c" by blast
      then have "dropWhile isSpace ((s @ xs) @ [x]) = dropWhile isSpace (s @ xs) @ [x]"
        by (rule dropWhile_append1)
      then show ?thesis using x by (simp add: trim_def)
    qed
  qed
  then show ?case using snoc by simp
qed

lemma str_includes_iff: "str_includes s sub \<longleftrightarrow> (\<exists>pre post. s = pre @ sub @ post)"
proof (induction s)
  case Nil then show ?case by auto
next
  case (Cons c cs)
  show ?case
  proof
    assume "str_includes (c # cs) sub"
    then consider "take (length sub) (c # cs) = sub" | "str_includes cs sub" by auto
    then show "\<exists>pre post. c # cs = pre @ sub @ post"
    proof cases
      case 1
      then have "c # cs = [] @ sub @ drop (length sub) (c # cs)"
        by (metis append_Nil append_take_drop_id)
      then show ?thesis by blast
    next
      case 2
      then obtain pre post where "cs = pre @ sub @ post" using Cons.IH by blast
      then have "c # cs = (c # pre) @ sub @ post" by simp
      then show ?thesis by blast
    qed
  next
    assume "\<exists>pre post. c # cs = pre @ sub @ post"
    then obtain pre post where e: "c # cs = pre @ sub @ post" by blast
    show "str_includes (c # cs) sub"
    proof (cases pre)
      case Nil
      then have "take (length sub) (c # cs) = sub" using e by simp
      then show ?thesis by simp
    next
      case (Cons p ps)
      then have "cs = ps @ sub @ post" using e by simp
      then show ?thesis using Cons.IH by auto
    qed
  qed
qed

section \<open>Facts about the matcher\<close>

lemma match_rest_first:
  "drop k s \<noteq> [] \<Longrightarrow> list_all isDot (drop k s) \<Longrightarrow> match_rest s k = Some (drop k s)"
  by (cases k) auto

lemma match_rest_none: "\<not> list_all isDot (drop k s) \<Longrightarrow> match_rest s k = None"
proof (induction k)
  case 0 then show ?case by simp
next
  case (Suc k)
  have "set (drop (Suc k) s) \<subseteq> set (drop k s)" by (rule set_drop_subset_set_drop) simp
  then have "\<not> list_all isDot (drop k s)" using Suc.prems by (auto simp: list_all_iff)
  then show ?case using Suc by simp
qed

lemma match_rest_closed:
  "match_rest s (length (takeWhile isSpace s)) =
     (if dropWhile isSpace s \<noteq> [] then
        (if list_all isDot (dropWhile isSpace s) then Some (dropWhile isSpace s) else None)
      else if s \<noteq> [] \<and> isDot (last s) then Some [last s] else None)"
proof -
  let ?n = "length (takeWhile isSpace s)"
  have dr: "drop ?n s = dropWhile isSpace s" by (simp add: dropWhile_eq_drop)
  show ?thesis
  proof (cases "dropWhile isSpace s = []")
    case False
    then show ?thesis using match_rest_first[of ?n s] match_rest_none[of ?n s] dr by auto
  next
    case True
    then have all: "takeWhile isSpace s = s" by (metis takeWhile_dropWhile_id append_Nil2)
    show ?thesis
    proof (cases s rule: rev_cases)
      case Nil then show ?thesis by simp
    next
      case (snoc ys y)
      then have n: "?n = Suc (length ys)" using all by simp
      have d1: "drop (Suc (length ys)) s = []" using snoc by simp
      have d2: "drop (length ys) s = [y]" using snoc by simp
      have "match_rest s ?n = match_rest s (length ys)" unfolding n using d1 by simp
      also have "\<dots> = (if isDot y then Some [y] else None)"
        using match_rest_first[of "length ys" s] match_rest_none[of "length ys" s] d2 by auto
      finally show ?thesis using True snoc by simp
    qed
  qed
qed

lemma takeWhile_nth_P: "j < length (takeWhile P xs) \<Longrightarrow> P (xs ! j)"
  by (metis nth_mem set_takeWhileD takeWhile_nth)

lemma match_digits_none: "j < length (takeWhile isDigit s) \<Longrightarrow> match_digits s j = None"
proof (induction j)
  case 0 then show ?case by simp
next
  case (Suc j)
  have lt: "Suc j < length s" using Suc.prems length_takeWhile_le[of isDigit s] by simp
  have dg: "isDigit (s ! Suc j)" using Suc.prems by (rule takeWhile_nth_P)
  have "drop (Suc j) s = s ! Suc j # drop (Suc (Suc j)) s" using lt by (simp add: Cons_nth_drop_Suc)
  moreover have "s ! Suc j \<noteq> 0x2E" using dg period_not_digit by auto
  moreover have "match_digits s j = None" using Suc by simp
  ultimately show ?case by simp
qed

lemma match_track_closed:
  "match_track s =
     (if takeWhile isDigit s = [] then None
      else case dropWhile isDigit s of
             [] \<Rightarrow> None
           | c # after \<Rightarrow>
               if c = 0x2E
               then map_option (Pair (takeWhile isDigit s))
                      (match_rest after (length (takeWhile isSpace after)))
               else None)"
proof (cases "length (takeWhile isDigit s)")
  case 0 then show ?thesis by (simp add: match_track_def)
next
  case (Suc j)
  have tk: "take (Suc j) s = takeWhile isDigit s"
    unfolding Suc[symmetric] by (rule takeWhile_eq_take[symmetric])
  have dr: "drop (Suc j) s = dropWhile isDigit s" using Suc by (simp add: dropWhile_eq_drop)
  have nn: "match_digits s j = None" using Suc by (simp add: match_digits_none)
  have ne: "takeWhile isDigit s \<noteq> []" using Suc by auto
  show ?thesis
  proof (cases "dropWhile isDigit s")
    case Nil
    have "match_track s = None"
      unfolding match_track_def Suc match_digits.simps dr Nil nn by simp
    then show ?thesis unfolding Nil using ne by simp
  next
    case (Cons c after)
    have "match_track s =
       (if c = 0x2E then
          (case match_rest after (length (takeWhile isSpace after)) of
             Some rest \<Rightarrow> Some (takeWhile isDigit s, rest)
           | None \<Rightarrow> None)
        else None)"
      unfolding match_track_def Suc match_digits.simps dr Cons nn tk by simp
    then show ?thesis unfolding Cons using ne by (simp split: option.split)
  qed
qed

text \<open>On a trimmed string.\<close>

lemma match_track_trimmed:
  assumes "s \<noteq> []" "\<not> isSpace (last s)"
  shows "match_track s =
     (if takeWhile isDigit s \<noteq> [] \<and> dropWhile isDigit s \<noteq> [] \<and> hd (dropWhile isDigit s) = 0x2E
         \<and> tl (dropWhile isDigit s) \<noteq> []
         \<and> list_all isDot (dropWhile isSpace (tl (dropWhile isDigit s)))
      then Some (takeWhile isDigit s, dropWhile isSpace (tl (dropWhile isDigit s))) else None)"
proof (cases "dropWhile isDigit s")
  case Nil then show ?thesis by (simp add: match_track_closed del: dropWhile_eq_Nil_conv)
next
  case (Cons c after)
  show ?thesis
  proof (cases "after = []")
    case True then show ?thesis using Cons by (simp add: match_track_closed del: dropWhile_eq_Nil_conv)
  next
    case False
    have "s = takeWhile isDigit s @ c # after" using Cons by (metis takeWhile_dropWhile_id)
    then have "last s = last after" using False by (metis last_appendR last_ConsR list.distinct(1))
    then have "\<not> isSpace (last after)" using assms by simp
    moreover have "last after \<in> set after" using False by simp
    ultimately have "dropWhile isSpace after \<noteq> []" by auto
    then show ?thesis using Cons False
      by (simp add: match_track_closed match_rest_closed del: dropWhile_eq_Nil_conv)
  qed
qed

lemma takeWhile_digits_prefix:
  "list_all isDigit ds \<Longrightarrow> takeWhile isDigit (ds @ 0x2E # xs) = ds"
  using period_not_digit by (simp add: list_all_iff)

lemma dropWhile_digits_prefix:
  "list_all isDigit ds \<Longrightarrow> dropWhile isDigit (ds @ 0x2E # xs) = 0x2E # xs"
  using period_not_digit by (simp add: list_all_iff)

lemma dropWhile_spaces_prefix:
  "list_all isSpace ws \<Longrightarrow> dropWhile isSpace (ws @ xs) = dropWhile isSpace xs"
  by (simp add: list_all_iff)

text \<open>What the matcher returns is a match of the pattern, with the longest white space.\<close>

lemma match_track_sound:
  assumes "s \<noteq> []" "\<not> isSpace (last s)" "match_track s = Some (ds, rest)"
  shows "matches_pattern s ds (takeWhile isSpace (tl (dropWhile isDigit s))) rest
         \<and> ds = takeWhile isDigit s
         \<and> rest = dropWhile isSpace (tl (dropWhile isDigit s))
         \<and> \<not> isSpace (hd rest) \<and> \<not> isSpace (last rest)"
proof -
  let ?r = "dropWhile isDigit s"
  from assms have c: "takeWhile isDigit s \<noteq> []" "?r \<noteq> []" "hd ?r = 0x2E" "tl ?r \<noteq> []"
      "list_all isDot (dropWhile isSpace (tl ?r))"
      and ds: "ds = takeWhile isDigit s" and rest: "rest = dropWhile isSpace (tl ?r)"
    by (auto simp: match_track_trimmed split: if_splits)
  have r: "?r = 0x2E # tl ?r" using c(2,3) by (cases ?r) auto
  have s: "s = ds @ 0x2E # tl ?r" using ds r by (metis takeWhile_dropWhile_id)
  then have "last s = last (tl ?r)" using c(4) by (metis last_appendR last_ConsR list.distinct(1))
  then have nl: "\<not> isSpace (last (tl ?r))" using assms(2) by simp
  moreover have "last (tl ?r) \<in> set (tl ?r)" using c(4) by simp
  ultimately have ne: "rest \<noteq> []" unfolding rest by auto
  have tl: "tl ?r = takeWhile isSpace (tl ?r) @ rest" unfolding rest by simp
  then have "last (tl ?r) = last rest" using ne by (metis last_appendR)
  then have l: "\<not> isSpace (last rest)" using nl by simp
  have h: "\<not> isSpace (hd rest)" using ne unfolding rest by (rule hd_dropWhile)
  have "s = ds @ [0x2E] @ takeWhile isSpace (tl ?r) @ rest" using s tl by simp
  moreover have "list_all isDigit ds" unfolding ds list_all_iff by (auto dest: set_takeWhileD)
  moreover have "list_all isSpace (takeWhile isSpace (tl ?r))"
    unfolding list_all_iff by (auto dest: set_takeWhileD)
  ultimately have "matches_pattern s ds (takeWhile isSpace (tl ?r)) rest"
    unfolding matches_pattern_def using c(1,5) ne ds rest by simp
  then show ?thesis using ds rest h l by simp
qed

text \<open>A trimmed string that matches the pattern is matched, up to the split of the white space.\<close>

lemma match_track_complete:
  assumes "\<not> isSpace (last s)" "matches_pattern s ds ws rest"
  shows "match_track s = Some (ds, dropWhile isSpace rest)"
proof -
  from assms(2) have s: "s = ds @ 0x2E # ws @ rest" and ne: "ds \<noteq> []" "rest \<noteq> []"
    and dg: "list_all isDigit ds" and sp: "list_all isSpace ws" and dt: "list_all isDot rest"
    by (auto simp: matches_pattern_def)
  have tw: "takeWhile isDigit s = ds" unfolding s using dg by (rule takeWhile_digits_prefix)
  have dw: "dropWhile isDigit s = 0x2E # ws @ rest" unfolding s using dg by (rule dropWhile_digits_prefix)
  have dr: "dropWhile isSpace (ws @ rest) = dropWhile isSpace rest"
    using sp by (rule dropWhile_spaces_prefix)
  have "set (dropWhile isSpace rest) \<subseteq> set rest" by (auto dest: set_dropWhileD)
  then have d2: "list_all isDot (dropWhile isSpace rest)" using dt by (auto simp: list_all_iff)
  have sne: "s \<noteq> []" using s by simp
  show ?thesis
    unfolding match_track_trimmed[OF sne assms(1)] tw dw using ne d2 dr by simp
qed

lemma match_track_None_iff:
  assumes "s \<noteq> []" "\<not> isSpace (last s)"
  shows "match_track s = None \<longleftrightarrow> (\<forall>ds ws rest. \<not> matches_pattern s ds ws rest)"
proof
  assume n: "match_track s = None"
  show "\<forall>ds ws rest. \<not> matches_pattern s ds ws rest"
  proof (intro allI notI)
    fix ds ws rest assume "matches_pattern s ds ws rest"
    then have "match_track s = Some (ds, dropWhile isSpace rest)"
      using assms(2) by (simp add: match_track_complete)
    then show False using n by simp
  qed
next
  assume a: "\<forall>ds ws rest. \<not> matches_pattern s ds ws rest"
  show "match_track s = None"
  proof (rule ccontr)
    assume "match_track s \<noteq> None"
    then obtain ds rest where "match_track s = Some (ds, rest)" by auto
    then show False using match_track_sound[OF assms] a by blast
  qed
qed

subsection \<open>The track list\<close>

lemma retained_trim: "line \<in> set (retained text) \<Longrightarrow> trim line \<noteq> []"
  by (simp add: retained_def)

lemma parse_line_name:
  assumes "trim line \<noteq> []"
  shows "name (parse_line i line) \<noteq> [] \<and> trim (name (parse_line i line)) = name (parse_line i line)"
proof (cases "match_track (trim line)")
  case None
  then show ?thesis using assms by (simp add: parse_line_def trim_trim)
next
  case (Some p)
  obtain ds rest where p: "p = (ds, rest)" by (cases p)
  have l: "\<not> isSpace (last (trim line))" using assms by (rule trim_last)
  from match_track_sound[OF assms l] Some p
  have ne: "rest \<noteq> []" and h: "\<not> isSpace (hd rest)" and la: "\<not> isSpace (last rest)"
    by (auto simp: matches_pattern_def)
  have "trim rest = rest" using h la by (simp add: trim_id)
  then show ?thesis using Some p ne by (simp add: parse_line_def)
qed

lemma trackList_unfiltered:
  "trackList text = map (\<lambda>(index, line). parse_line index line) (enumerate 0 (retained text))"
proof -
  have "\<forall>t \<in> set (map (\<lambda>(index, line). parse_line index line) (enumerate 0 (retained text))).
          length (name t) > 0"
  proof
    fix t assume "t \<in> set (map (\<lambda>(index, line). parse_line index line) (enumerate 0 (retained text)))"
    then obtain i line where "t = parse_line i line" "line \<in> set (retained text)"
      by (auto simp: in_set_enumerate_eq)
    then show "length (name t) > 0" using parse_line_name[of line i] retained_trim by simp
  qed
  then show ?thesis unfolding trackList_def by (simp only: filter_True)
qed

lemma length_trackList: "length (trackList text) = length (retained text)"
  by (simp add: trackList_unfiltered)

lemma nth_trackList:
  "i < length (retained text) \<Longrightarrow> trackList text ! i = parse_line i (retained text ! i)"
  by (simp add: trackList_unfiltered nth_enumerate_eq)

subsection \<open>Parsing one line\<close>

text \<open>The definitions to unfold when a concrete text is evaluated.\<close>

lemmas ev = normalizeText_def unknown_def trackList_def retained_def parse_line_def match_track_def trim_def js_def isSpace_def isWhiteSpace_def isLineTerminator_def isDigit_def isDot_def parseInt_def toNumber_def digitsValue_def strip_number_def starts_numbered_def trackList_App_def enumerate_eq_zip

lemma digitsValue_snoc: "digitsValue (ds @ [d]) = 10 * digitsValue ds + unat (d - 0x30)"
  by (simp add: digitsValue_def)

lemma digitsValue_zero: "digitsValue ds = 0 \<Longrightarrow> set ds \<subseteq> {0x30}"
proof (induction ds rule: rev_induct)
  case Nil then show ?case by simp
next
  case (snoc d ds)
  then have a: "digitsValue ds = 0" and b: "unat (d - 0x30) = 0" by (auto simp: digitsValue_snoc)
  from b have "d - 0x30 = 0" by (simp add: unat_eq_0)
  then have "d = 0x30" by simp
  then show ?case using snoc.IH a by simp
qed

lemma parse_line_fallback:
  assumes "trim line \<noteq> []" "\<forall>ds ws rest. \<not> matches_pattern (trim line) ds ws rest"
  shows "parse_line i line = \<lparr>number = Finite (i + 1), name = trim line\<rparr>"
proof -
  have "match_track (trim line) = None"
    using match_track_None_iff[OF assms(1) trim_last[OF assms(1)]] assms(2) by simp
  then show ?thesis by (simp add: parse_line_def)
qed

lemma parse_line_numbered:
  assumes "trim line \<noteq> []" "matches_pattern (trim line) ds ws rest"
  shows "parse_line i line = \<lparr>number = parseInt ds, name = trim (ws @ rest)\<rparr>"
proof -
  have m: "match_track (trim line) = Some (ds, dropWhile isSpace rest)"
    using match_track_complete[OF trim_last[OF assms(1)] assms(2)] .
  have "list_all isSpace ws" using assms(2) by (simp add: matches_pattern_def)
  then have "dropWhile isSpace (ws @ rest) = dropWhile isSpace rest" by (rule dropWhile_spaces_prefix)
  then have "trim (ws @ rest) = trim (dropWhile isSpace rest)" by (metis trim_dropWhile)
  then show ?thesis using m by (simp add: parse_line_def)
qed

subsection \<open>Conversion to a double\<close>

lemma toNumber_exact: "n < 2 ^ 53 \<Longrightarrow> toNumber n = Finite n"
  by (simp add: toNumber_def)

lemma toNumber_positive:
  assumes "0 < n"
  shows "toNumber n = Infinity \<or> (\<exists>m. 0 < m \<and> toNumber n = Finite m)"
proof (cases "n < 2 ^ 53")
  case True
  then show ?thesis using assms by (simp add: toNumber_def)
next
  case False
  define e where "e = floorlog 2 n - 53"
  define q where "q = n div 2 ^ e"
  define q' where "q' = (if 2 ^ (e - 1) < n mod 2 ^ e \<or> (n mod 2 ^ e = 2 ^ (e - 1) \<and> odd q) then q + 1 else q)"
  have "(2::nat) ^ (floorlog 2 n - 1) \<le> n" using floorlog_bounds[of n 2] assms by simp
  moreover have "(2::nat) ^ e \<le> 2 ^ (floorlog 2 n - 1)" unfolding e_def by (rule power_increasing) auto
  ultimately have "2 ^ e \<le> n" by (rule order_trans[rotated])
  then have "0 < q" unfolding q_def by (simp add: div_greater_zero_iff)
  then have "0 < q'" unfolding q'_def by simp
  then have p: "0 < q' * 2 ^ e" by simp
  have "toNumber n = (if 2 ^ 1024 \<le> q' * 2 ^ e then Infinity else Finite (q' * 2 ^ e))"
    using False unfolding toNumber_def Let_def e_def[symmetric] q_def[symmetric] q'_def[symmetric]
    by simp
  then show ?thesis using p by auto
qed

lemma toNumber_overflow: "toNumber (2 ^ 1024) = Infinity"
proof -
  have "floorlog 2 (1 * 2 ^ 1024) = floorlog 2 1 + 1024" by (rule floorlog_power) simp_all
  moreover have "floorlog 2 1 = 1" by (simp add: compute_floorlog)
  ultimately have f: "floorlog 2 ((2::nat) ^ 1024) = 1025" by simp
  have d: "(2::nat) ^ 1024 div 2 ^ 972 = 2 ^ 52" by (simp add: power_diff[symmetric])
  have m: "(2::nat) ^ 1024 mod 2 ^ 972 = 0" by (simp add: le_imp_power_dvd)
  have l: "\<not> (2::nat) ^ 1024 < 2 ^ 53" by simp
  have "(2::nat) ^ 52 * 2 ^ 972 = 2 ^ 1024" by (simp add: power_add[symmetric])
  then show ?thesis unfolding toNumber_def Let_def f using l d m by simp
qed

lemma floorlog_54: "2 ^ 53 \<le> n \<Longrightarrow> n < 2 ^ 54 \<Longrightarrow> floorlog 2 n = 54"
proof -
  assume a: "2 ^ 53 \<le> n" and b: "n < 2 ^ 54"
  have "Suc 53 \<le> floorlog 2 n" using a by (intro floorlog_ge_SucI) simp_all
  moreover have "floorlog 2 n \<le> 54" using b by (intro floorlog_leI) simp_all
  ultimately show ?thesis by simp
qed

text \<open>
  From \<open>2 ^ 53\<close> on the conversion gives a multiple of the spacing of the doubles around
  \<open>n\<close> that is at most half that spacing away from \<open>n\<close>, or \<^verbatim>\<open>Infinity\<close> when that
  multiple reaches \<open>2 ^ 1024\<close>.
\<close>

lemma toNumber_nearest:
  assumes "2 ^ 53 \<le> n"
  shows "\<exists>m. 2 ^ (floorlog 2 n - 53) dvd m \<and>
             m \<le> n + 2 ^ (floorlog 2 n - 54) \<and> n \<le> m + 2 ^ (floorlog 2 n - 54) \<and>
             toNumber n = (if 2 ^ 1024 \<le> m then Infinity else Finite m)"
proof -
  define e where "e = floorlog 2 n - 53"
  define h :: nat where "h = 2 ^ (e - 1)"
  define P :: nat where "P = 2 ^ e"
  define q where "q = n div P"
  define r where "r = n mod P"
  define q' where "q' = (if h < r \<or> (r = h \<and> odd q) then q + 1 else q)"
  have "Suc 53 \<le> floorlog 2 n" using assms by (intro floorlog_ge_SucI) simp_all
  then have e1: "1 \<le> e" and e54: "floorlog 2 n - 54 = e - 1" unfolding e_def by simp_all
  have P2: "P = 2 * h" unfolding P_def h_def using e1 by (cases e) simp_all
  have n: "n = q * P + r" unfolding q_def r_def by simp
  have rP: "r < P" unfolding r_def P_def by simp
  have nl: "\<not> n < 2 ^ 53" using assms by simp
  have t: "toNumber n = (if 2 ^ 1024 \<le> q' * P then Infinity else Finite (q' * P))"
    using nl unfolding toNumber_def Let_def e_def[symmetric] P_def[symmetric] h_def[symmetric]
      q_def[symmetric] r_def[symmetric] q'_def[symmetric] by simp
  have d: "P dvd q' * P" by simp
  have "q' * P \<le> n + h \<and> n \<le> q' * P + h"
  proof (cases "h < r \<or> (r = h \<and> odd q)")
    case True
    then have "q' = q + 1" unfolding q'_def by auto
    then have "q' * P = q * P + P" by simp
    then show ?thesis using n rP P2 True by auto
  next
    case False
    then have "q' = q" unfolding q'_def by auto
    then show ?thesis using n False by auto
  qed
  then show ?thesis using t d unfolding e54 P_def[symmetric] e_def[symmetric] h_def[symmetric]
    by blast
qed

text \<open>Two integers next to \<open>2 ^ 53\<close>: one rounds down and one rounds up.\<close>

lemma toNumber_rounds_down: "toNumber 9007199254740993 = Finite 9007199254740992"
proof -
  have f: "floorlog 2 (9007199254740993::nat) = 54" by (rule floorlog_54) simp_all
  show ?thesis unfolding toNumber_def Let_def f by simp
qed

lemma toNumber_rounds_up: "toNumber 9007199254740995 = Finite 9007199254740996"
proof -
  have f: "floorlog 2 (9007199254740995::nat) = 54" by (rule floorlog_54) simp_all
  show ?thesis unfolding toNumber_def Let_def f by simp
qed

text \<open>The definitions to unfold up to the conversion of the digits.\<close>

lemmas ev_digits = normalizeText_def unknown_def trackList_def retained_def parse_line_def match_track_def trim_def js_def isSpace_def isWhiteSpace_def isLineTerminator_def isDigit_def isDot_def parseInt_def digitsValue_def enumerate_eq_zip

subsection \<open>The phrases of the classification\<close>

lemma str_includes_mid: "str_includes (pre @ sub @ post) sub"
  using str_includes_iff by blast

lemma unknown_iff:
  "unknown text \<longleftrightarrow>
     (\<exists>pre post. text = pre @ js ''don't have information'' @ post) \<or>
     (\<exists>pre post. text = pre @ js ''don't know'' @ post)"
  by (simp add: unknown_def str_includes_iff)

lemma sentinel_unknown: "unknown (pre @ js ''I don't have information about this album.'' @ post)"
proof -
  have "js ''I don't have information about this album.'' =
        js ''I '' @ js ''don't have information'' @ js '' about this album.''"
    by (simp add: js_def)
  then have "pre @ js ''I don't have information about this album.'' @ post =
             (pre @ js ''I '') @ js ''don't have information'' @ (js '' about this album.'' @ post)"
    by simp
  then show ?thesis unfolding unknown_iff by blast
qed

subsection \<open>The examples\<close>

lemma text_path_reply_with: "text_path (reply_with v) = Inr v"
  by (simp add: text_path_def reply_with_def nullish_def js_def)

lemma text_path_gemini_reply: "text_path (gemini_reply t) = Inr (JString t)"
  by (simp add: gemini_reply_def text_path_reply_with)

lemma extract_text_gemini_reply: "extract_text (gemini_reply t) = Inr (JString t)"
  by (simp add: extract_text_def text_path_gemini_reply)

lemma abbey_road_valid:
  "trim (apiKey abbey_road) \<noteq> [] \<and> trim (artist abbey_road) \<noteq> [] \<and> trim (album abbey_road) \<noteq> []"
  by (simp add: abbey_road_def ev)

lemma no_pattern_Track_Six: "\<not> matches_pattern (js ''Track Six'') ds ws rest"
proof -
  have "match_track (js ''Track Six'') = None" by (simp add: ev)
  moreover have "js ''Track Six'' \<noteq> []" "\<not> isSpace (last (js ''Track Six''))" by (simp_all add: ev)
  ultimately show ?thesis using match_track_None_iff by blast
qed

subsection \<open>The two normalizers on one line\<close>

lemma trailing_spaces:
  assumes "line \<noteq> []" "\<not> isSpace (hd line)"
  shows "\<exists>sp. line = trim line @ sp \<and> (\<forall>c \<in> set sp. isSpace c)"
proof -
  have d: "dropWhile isSpace line = line" using assms by (cases line) auto
  have "rev (dropWhile isSpace (rev line)) @ rev (takeWhile isSpace (rev line)) =
        rev (takeWhile isSpace (rev line) @ dropWhile isSpace (rev line))"
    by (simp only: rev_append)
  also have "\<dots> = rev (rev line)" by (simp only: takeWhile_dropWhile_id)
  finally have "rev (dropWhile isSpace (rev line)) @ rev (takeWhile isSpace (rev line)) = line"
    by simp
  then have "line = trim line @ rev (takeWhile isSpace (rev line))"
    unfolding trim_def d by (rule sym)
  moreover have "\<forall>c \<in> set (rev (takeWhile isSpace (rev line))). isSpace c"
    by (auto dest: set_takeWhileD)
  ultimately show ?thesis by blast
qed

lemma strip_number_numbered:
  assumes "list_all isDigit ds" "ds \<noteq> []"
  shows "strip_number (ds @ 0x2E # xs) = dropWhile isSpace xs"
  using assms by (simp add: strip_number_def starts_numbered_def takeWhile_digits_prefix dropWhile_digits_prefix)

lemma names_agree_line:
  assumes ne: "trim line \<noteq> []" and reg: "regular_line line"
  shows "trim (strip_number line) = name (parse_line i line)"
proof -
  have l: "\<not> isSpace (last (trim line))" using ne by (rule trim_last)
  have lne: "line \<noteq> []" using ne by (auto simp: trim_def)
  show ?thesis
  proof (cases "\<exists>ds ws rest. matches_pattern (trim line) ds ws rest")
    case True
    then obtain ds ws rest where m: "matches_pattern (trim line) ds ws rest" by blast
    then have t: "trim line = ds @ 0x2E # ws @ rest" and dg: "list_all isDigit ds" "ds \<noteq> []"
      by (auto simp: matches_pattern_def)
    have "match_track (trim line) \<noteq> None" using match_track_complete[OF l m] by simp
    then have h: "\<not> isSpace (hd line)"
      using reg lne by (simp add: regular_line_def takeWhile_eq_Nil_iff)
    obtain sp where sp: "line = trim line @ sp" "\<forall>c \<in> set sp. isSpace c"
      using trailing_spaces[OF lne h] by blast
    have "line = ds @ 0x2E # ((ws @ rest) @ sp)" using sp(1) t by simp
    then have "strip_number line = dropWhile isSpace ((ws @ rest) @ sp)"
      using strip_number_numbered[OF dg] by metis
    then have "trim (strip_number line) = trim ((ws @ rest) @ sp)" by (simp add: trim_dropWhile)
    also have "\<dots> = trim (ws @ rest)" using sp(2) by (rule trim_append_spaces)
    finally show ?thesis using parse_line_numbered[OF ne m] by simp
  next
    case False
    then have n: "match_track (trim line) = None"
      using match_track_None_iff[OF ne l] by simp
    then have "\<not> starts_numbered line" using reg by (simp add: regular_line_def)
    then have s: "strip_number line = line" by (simp add: strip_number_def)
    show ?thesis using s n by (simp add: parse_line_def)
  qed
qed

lemma map_enumerate_const:
  "(\<And>i x. x \<in> set xs \<Longrightarrow> f x = g i x) \<Longrightarrow> map f xs = map (\<lambda>(i, x). g i x) (enumerate n xs)"
  by (induction xs arbitrary: n) auto

lemma names_agree_if:
  assumes "\<forall>line \<in> set (retained text). regular_line line"
  shows "trackList_App text = map name (trackList text)"
proof -
  have eq: "\<And>i line. line \<in> set (retained text) \<Longrightarrow>
      (trim \<circ> strip_number) line = name (parse_line i line)"
    using assms names_agree_line retained_trim by simp
  have m: "map (trim \<circ> strip_number) (retained text) =
        map (\<lambda>(i, line). name (parse_line i line)) (enumerate 0 (retained text))"
    using eq by (rule map_enumerate_const)
  also have "\<dots> = map name (trackList text)"
    by (simp add: trackList_unfiltered comp_def case_prod_unfold)
  finally have m2: "map (\<lambda>line. trim (strip_number line)) (retained text) = map name (trackList text)"
    by (simp add: comp_def)
  have "\<forall>n \<in> set (map name (trackList text)). length n > 0"
  proof
    fix n assume "n \<in> set (map name (trackList text))"
    then obtain i where "i < length (retained text)" "n = name (parse_line i (retained text ! i))"
      by (auto simp: in_set_conv_nth length_trackList nth_trackList)
    then show "length n > 0" using parse_line_name[of "retained text ! i" i] retained_trim[of "retained text ! i" "text"]
      by simp
  qed
  then have "filter (\<lambda>line. length line > 0) (map name (trackList text)) = map name (trackList text)"
    by (simp only: filter_True)
  then show ?thesis unfolding trackList_App_def retained_def[symmetric] m2 .
qed

text \<open>
  A line that begins with white space is left whole by the pattern of \<^verbatim>\<open>src/App.jsx\<close>,
  which is applied before trimming.
\<close>

lemma indented_names:
  assumes ne: "trim line \<noteq> []" and ws: "takeWhile isSpace line \<noteq> []"
    and s: "match_track (trim line) = Some (ds, rest)"
  shows "trim (strip_number line) = trim line \<and> name (parse_line i line) = rest \<and>
         length rest < length (trim line)"
proof -
  have "isSpace (hd line)" using ws by (cases line) (auto split: if_splits)
  then have "\<not> isDigit (hd line)" by (rule space_not_digit)
  then have "takeWhile isDigit line = []" by (cases line) auto
  then have "strip_number line = line" by (simp add: strip_number_def starts_numbered_def)
  then have a: "trim (strip_number line) = trim line" by simp
  from match_track_sound[OF ne trim_last[OF ne] s]
  obtain w where m: "matches_pattern (trim line) ds w rest"
    and h: "\<not> isSpace (hd rest)" and l: "\<not> isSpace (last rest)" by blast
  have "trim line = ds @ [0x2E] @ w @ rest" using m by (simp add: matches_pattern_def)
  then have b: "length rest < length (trim line)" by simp
  have "trim rest = rest" using h l by (simp add: trim_id)
  then have "name (parse_line i line) = rest" using s by (simp add: parse_line_def)
  then show ?thesis using a b by simp
qed

text \<open>On a retained line, the matcher succeeds exactly on the language of the pattern.\<close>

lemma regular_line_iff:
  assumes "trim line \<noteq> []"
  shows "regular_line line \<longleftrightarrow>
           ((\<exists>ds ws rest. matches_pattern (trim line) ds ws rest) \<longrightarrow> \<not> isSpace (hd line)) \<and>
           (starts_numbered line \<longrightarrow> (\<exists>ds ws rest. matches_pattern (trim line) ds ws rest))"
proof -
  have "line \<noteq> []" using assms by (auto simp: trim_def)
  then have "takeWhile isSpace line = [] \<longleftrightarrow> \<not> isSpace (hd line)"
    by (simp add: takeWhile_eq_Nil_iff)
  moreover have "match_track (trim line) \<noteq> None \<longleftrightarrow>
      (\<exists>ds ws rest. matches_pattern (trim line) ds ws rest)"
    using match_track_None_iff[OF assms trim_last[OF assms]] by simp
  ultimately show ?thesis by (simp add: regular_line_def)
qed

subsection \<open>Reading the text of a response\<close>

lemma normalizeText_Nil: "normalizeText [] = Found []"
  by (simp add: normalizeText_def unknown_def trackList_def retained_def trim_def js_def)

lemma text_path_nullish_data:
  "nullish data \<Longrightarrow> text_path data = Inl (TypeError (ReadOfNullish data (js ''candidates'')))"
  by (auto simp: nullish_def text_path_def)

lemma text_path_no_candidates:
  "get_member (js ''candidates'') data = Inr c \<Longrightarrow> nullish c \<Longrightarrow>
     text_path data = Inl (TypeError (ReadOfNullish c (js ''0'')))"
  by (auto simp: nullish_def text_path_def)

lemma text_path_no_first_candidate:
  "get_member (js ''candidates'') data = Inr c \<Longrightarrow> index0 c = Inr x \<Longrightarrow> nullish x \<Longrightarrow>
     text_path data = Inr JUndefined"
  by (simp add: text_path_def nullish_def)

section \<open>Properties of the specification\<close>

text \<open>
  The normalizer of \<^verbatim>\<open>src/App.jsx\<close> drops a line that is only a number and a period.
\<close>

lemma artifact_dropped_App: "trackList_App (js ''1. \<newline>2. Something'') = [js ''Something'']"
  by (simp add: ev)

text \<open>
  C1. The final filter drops a track whose name is empty, but no track has one
  (\<open>trackList_unfiltered\<close>): the line \<^verbatim>\<open>1.\<close> does not match the pattern, whose second
  group needs a character, and becomes a track by the fallback. For the text \<^verbatim>\<open>1. \<close>,
  \<^verbatim>\<open>2. Something\<close> the code returns two tracks, the first named \<^verbatim>\<open>1.\<close>, where the
  specification has the first line dropped.
\<close>

theorem numbering_artifact_kept:
  "normalizeText (js ''1. \<newline>2. Something'') =
     Found [\<lparr>number = Finite 1, name = js ''1.''\<rparr>, \<lparr>number = Finite 2, name = js ''Something''\<rparr>]"
  by (simp add: ev)

text \<open>The line \<^verbatim>\<open>0. Song\<close> gives a track at position 0.\<close>

theorem position_zero:
  "normalizeText (js ''0. Song'') = Found [\<lparr>number = Finite 0, name = js ''Song''\<rparr>]"
  by (simp add: ev)

text \<open>
  C2, as amended. Every track of a \<open>Found\<close> outcome has a non-empty, trimmed name. Its
  position is a positive integer, unless the track comes from a numbered line whose leading
  digits are all zeros, where it is 0, or denote a number so large, \<open>2 ^ 53\<close> at the
  least, that its double is \<^verbatim>\<open>Infinity\<close>.
\<close>

theorem track_invariant:
  "normalizeText text = Found ts \<Longrightarrow> t \<in> set ts \<Longrightarrow>
     name t \<noteq> [] \<and> trim (name t) = name t \<and>
     ((\<exists>n. 0 < n \<and> number t = Finite n) \<or>
      (\<exists>line \<in> set (retained text). \<exists>ds ws.
          matches_pattern (trim line) ds ws (name t) \<and>
          ((set ds \<subseteq> {0x30} \<and> number t = Finite 0) \<or>
           (2 ^ 53 \<le> digitsValue ds \<and> number t = Infinity))))"
proof -
  assume f: "normalizeText text = Found ts" and t: "t \<in> set ts"
  have ts: "ts = trackList text" using f by (simp add: normalizeText_def split: if_splits)
  then obtain i where i: "i < length (retained text)" and ti: "t = parse_line i (retained text ! i)"
    using t by (metis in_set_conv_nth length_trackList nth_trackList)
  let ?line = "retained text ! i"
  have mem: "?line \<in> set (retained text)" using i by simp
  then have ne: "trim ?line \<noteq> []" by (rule retained_trim)
  have nm: "name t \<noteq> [] \<and> trim (name t) = name t" unfolding ti using ne by (rule parse_line_name)
  show ?thesis
  proof (cases "match_track (trim ?line)")
    case None
    then have "number t = Finite (i + 1)" unfolding ti by (simp add: parse_line_def)
    then show ?thesis using nm by simp
  next
    case (Some p)
    obtain ds rest where p: "p = (ds, rest)" by (cases p)
    from match_track_sound[OF ne trim_last[OF ne]] Some p
    have mp: "matches_pattern (trim ?line) ds (takeWhile isSpace (tl (dropWhile isDigit (trim ?line)))) rest"
      and h: "\<not> isSpace (hd rest)" and l: "\<not> isSpace (last rest)" by auto
    have "trim rest = rest" using h l by (simp add: trim_id)
    then have t2: "number t = toNumber (digitsValue ds)" "name t = rest"
      unfolding ti using Some p by (simp_all add: parse_line_def parseInt_def)
    show ?thesis
    proof (cases "digitsValue ds = 0")
      case True
      then have "set ds \<subseteq> {0x30}" by (rule digitsValue_zero)
      moreover have "number t = Finite 0" using True t2 by (simp add: toNumber_exact)
      ultimately show ?thesis using nm mem mp t2 by blast
    next
      case False
      then consider "toNumber (digitsValue ds) = Infinity"
        | m where "0 < m" "toNumber (digitsValue ds) = Finite m"
        using toNumber_positive[of "digitsValue ds"] by auto
      then show ?thesis
      proof cases
        case 1
        then have "2 ^ 53 \<le> digitsValue ds" using toNumber_exact[of "digitsValue ds"] by force
        then show ?thesis using 1 nm mem mp t2 by auto
      next
        case 2
        then show ?thesis using nm t2 by simp
      qed
    qed
  qed
qed

theorem track_invariant_witness:
  "normalizeText (js ''0. Song\<newline>Intro'') =
     Found [\<lparr>number = Finite 0, name = js ''Song''\<rparr>, \<lparr>number = Finite 2, name = js ''Intro''\<rparr>]
   \<and> \<lparr>number = Finite 2, name = js ''Intro''\<rparr> \<in>
       set [\<lparr>number = Finite 0, name = js ''Song''\<rparr>, \<lparr>number = Finite 2, name = js ''Intro''\<rparr>]
   \<and> js ''Intro'' \<noteq> [] \<and> trim (js ''Intro'') = js ''Intro''"
proof -
  let ?ts = "[\<lparr>number = Finite 0, name = js ''Song''\<rparr>, \<lparr>number = Finite 2, name = js ''Intro''\<rparr>]"
  have a: "normalizeText (js ''0. Song\<newline>Intro'') = Found ?ts" by (simp add: ev)
  have b: "\<lparr>number = Finite 2, name = js ''Intro''\<rparr> \<in> set ?ts" by simp
  from track_invariant[OF a b] show ?thesis using a by simp
qed

text \<open>
  A success response with no candidate has no text to extract, and the outcome is
  \<open>Found []\<close>.
\<close>

theorem empty_text_found:
  "lookupTracks v8 (Response True (Json (JObject [(js ''candidates'', JArray [])]))) = Found []"
  by (simp add: lookupTracks_def extract_text_def text_path_def nullish_def ev)

text \<open>
  C3, as amended. A non-success response gives \<open>ProviderError\<close> with the message of the
  code, and a rejected \<^verbatim>\<open>fetch\<close> or body gives it with the message of the rejection. A
  success response gives \<open>ProviderError\<close>, with the message of the engine, when reading the
  text throws or finds a truthy value that is neither a string nor an array. When the read ends
  in a missing or falsy value the text is taken to be empty and the outcome is \<open>Found []\<close>.
\<close>

theorem provider_error:
  "lookupTracks engine (Response False b) =
     ProviderError (js ''Failed to fetch from Gemini API. Please check your API key.'')
   \<and> lookupTracks engine (FetchRejected m) =
     ProviderError (if m \<noteq> [] then m else js ''An error occurred while fetching tracks'')
   \<and> lookupTracks engine (Response True (JsonRejected m)) =
     ProviderError (if m \<noteq> [] then m else js ''An error occurred while fetching tracks'')
   \<and> (text_path data = Inl err \<longrightarrow>
        lookupTracks engine (Response True (Json data)) =
          ProviderError (if message engine err \<noteq> [] then message engine err
                         else js ''An error occurred while fetching tracks''))
   \<and> (text_path data = Inr v \<and> \<not> truthy v \<longrightarrow>
        lookupTracks engine (Response True (Json data)) = Found [])
   \<and> (text_path data = Inr v \<and> truthy v \<and> (\<forall>t. v \<noteq> JString t) \<and> (\<forall>vs. v \<noteq> JArray vs) \<longrightarrow>
        lookupTracks engine (Response True (Json data)) =
          ProviderError (if engine (NotAFunction (js ''text.includes'')) \<noteq> []
                         then engine (NotAFunction (js ''text.includes''))
                         else js ''An error occurred while fetching tracks''))"
proof -
  have "text_path data = Inr v \<and> truthy v \<and> (\<forall>t. v \<noteq> JString t) \<and> (\<forall>vs. v \<noteq> JArray vs) \<longrightarrow>
        lookupTracks engine (Response True (Json data)) =
          ProviderError (if engine (NotAFunction (js ''text.includes'')) \<noteq> []
                         then engine (NotAFunction (js ''text.includes''))
                         else js ''An error occurred while fetching tracks'')"
    by (cases v) (simp_all add: lookupTracks_def extract_text_def)
  moreover have "text_path data = Inr v \<and> \<not> truthy v \<longrightarrow>
        lookupTracks engine (Response True (Json data)) = Found []"
    by (simp add: lookupTracks_def extract_text_def normalizeText_Nil)
  moreover have "text_path data = Inl err \<longrightarrow>
        lookupTracks engine (Response True (Json data)) =
          ProviderError (if message engine err \<noteq> [] then message engine err
                         else js ''An error occurred while fetching tracks'')"
    by (simp add: lookupTracks_def extract_text_def)
  moreover have "lookupTracks engine (Response False b) =
     ProviderError (js ''Failed to fetch from Gemini API. Please check your API key.'')"
    by (simp add: lookupTracks_def js_def)
  moreover have "lookupTracks engine (FetchRejected m) =
     ProviderError (if m \<noteq> [] then m else js ''An error occurred while fetching tracks'')"
    by (simp add: lookupTracks_def)
  moreover have "lookupTracks engine (Response True (JsonRejected m)) =
     ProviderError (if m \<noteq> [] then m else js ''An error occurred while fetching tracks'')"
    by (simp add: lookupTracks_def)
  ultimately show ?thesis by blast
qed

theorem provider_error_witness:
  "text_path (JObject [(js ''candidates'', JArray [])]) = Inr JUndefined \<and> \<not> truthy JUndefined
   \<and> lookupTracks v8 (Response True (Json (JObject [(js ''candidates'', JArray [])]))) = Found []
   \<and> text_path (JObject []) = Inl (TypeError (ReadOfNullish JUndefined (js ''0'')))
   \<and> lookupTracks v8 (Response True (Json (JObject []))) =
       ProviderError (js ''Cannot read properties of undefined (reading '' @ apos @ js ''0'' @ apos @ js '')'')
   \<and> text_path (reply_with (JNumber NonZero)) = Inr (JNumber NonZero) \<and> truthy (JNumber NonZero)
   \<and> lookupTracks v8 (Response True (Json (reply_with (JNumber NonZero)))) =
       ProviderError (js ''text.includes is not a function'')
   \<and> lookupTracks v8 (Response False (Json (JObject []))) =
       ProviderError (js ''Failed to fetch from Gemini API. Please check your API key.'')"
proof -
  let ?d = "JObject [(js ''candidates'', JArray [])]"
  let ?e = "JObject []"
  let ?n = "reply_with (JNumber NonZero)"
  let ?err = "TypeError (ReadOfNullish JUndefined (js ''0''))"
  have a: "text_path ?d = Inr JUndefined \<and> \<not> truthy JUndefined"
    by (simp add: text_path_def nullish_def js_def)
  have b: "text_path ?e = Inl ?err"
    by (simp add: text_path_def nullish_def js_def)
  have c: "text_path ?n = Inr (JNumber NonZero) \<and> truthy (JNumber NonZero) \<and>
      (\<forall>t. JNumber NonZero \<noteq> JString t) \<and> (\<forall>vs. JNumber NonZero \<noteq> JArray vs)"
    by (simp add: text_path_reply_with)
  have m: "message v8 ?err =
       js ''Cannot read properties of undefined (reading '' @ apos @ js ''0'' @ apos @ js '')''"
    by (simp add: js_def)
  have n: "js ''Cannot read properties of undefined (reading '' @ apos @ js ''0'' @ apos @ js '')'' \<noteq> []"
    by (simp add: js_def)
  have k: "v8 (NotAFunction (js ''text.includes'')) = js ''text.includes is not a function''"
    "js ''text.includes is not a function'' \<noteq> []"
    by (simp_all add: js_def)
  from provider_error[of v8 "Json ?e" "[]" ?d ?err JUndefined] a
  have 1: "lookupTracks v8 (Response True (Json ?d)) = Found []"
    and 2: "lookupTracks v8 (Response False (Json ?e)) =
       ProviderError (js ''Failed to fetch from Gemini API. Please check your API key.'')"
    by blast+
  from provider_error[of v8 "Json ?e" "[]" ?e ?err JUndefined] b
  have "lookupTracks v8 (Response True (Json ?e)) =
          ProviderError (if message v8 ?err \<noteq> [] then message v8 ?err
                         else js ''An error occurred while fetching tracks'')" by blast
  then have 3: "lookupTracks v8 (Response True (Json ?e)) =
       ProviderError (js ''Cannot read properties of undefined (reading '' @ apos @ js ''0'' @ apos @ js '')'')"
    unfolding m using n by simp
  from provider_error[of v8 "Json ?e" "[]" ?n ?err "JNumber NonZero"] c
  have "lookupTracks v8 (Response True (Json ?n)) =
          ProviderError (if v8 (NotAFunction (js ''text.includes'')) \<noteq> []
                         then v8 (NotAFunction (js ''text.includes''))
                         else js ''An error occurred while fetching tracks'')" by blast
  then have 4: "lookupTracks v8 (Response True (Json ?n)) =
       ProviderError (js ''text.includes is not a function'')"
    unfolding k(1) using k(2) by simp
  show ?thesis using a b c 1 2 3 4 by blast
qed

text \<open>
  C4. In a \<open>Found\<close> outcome the tracks correspond one to one, in order, to the retained
  lines, and a retained line that does not match the leading-number pattern gives the track
  whose position is the 1-based rank of the line among the retained lines and whose name is the
  trimmed line, whatever numbers the other lines carry. For the text
  \<^verbatim>\<open>5. Track Five\<close>, \<^verbatim>\<open>Track Six\<close> the positions are 5 and 2.
\<close>

theorem fallback_position:
  "(\<forall>text ts i.
      normalizeText text = Found ts \<longrightarrow> i < length (retained text) \<longrightarrow>
      (\<forall>ds ws rest. \<not> matches_pattern (trim (retained text ! i)) ds ws rest) \<longrightarrow>
      length ts = length (retained text) \<and>
      ts ! i = \<lparr>number = Finite (i + 1), name = trim (retained text ! i)\<rparr>)
   \<and> normalizeText (js ''5. Track Five\<newline>Track Six'') =
       Found [\<lparr>number = Finite 5, name = js ''Track Five''\<rparr>,
              \<lparr>number = Finite 2, name = js ''Track Six''\<rparr>]"
proof (intro conjI allI impI)
  fix raw ts i
  assume f: "normalizeText raw = Found ts" and i: "i < length (retained raw)"
    and n: "\<forall>ds ws rest. \<not> matches_pattern (trim (retained raw ! i)) ds ws rest"
  have ts: "ts = trackList raw" using f by (simp add: normalizeText_def split: if_splits)
  show "length ts = length (retained raw)" using ts by (simp add: length_trackList)
  have "trim (retained raw ! i) \<noteq> []" using i retained_trim nth_mem by blast
  then show "ts ! i = \<lparr>number = Finite (i + 1), name = trim (retained raw ! i)\<rparr>"
    using ts i n by (simp add: nth_trackList parse_line_fallback)
next
  show "normalizeText (js ''5. Track Five\<newline>Track Six'') =
       Found [\<lparr>number = Finite 5, name = js ''Track Five''\<rparr>,
              \<lparr>number = Finite 2, name = js ''Track Six''\<rparr>]"
    by (simp add: ev)
qed

theorem fallback_position_witness:
  "normalizeText (js ''5. Track Five\<newline>Track Six'') = Found (trackList (js ''5. Track Five\<newline>Track Six''))
   \<and> 1 < length (retained (js ''5. Track Five\<newline>Track Six''))
   \<and> (\<forall>ds ws rest. \<not> matches_pattern (trim (retained (js ''5. Track Five\<newline>Track Six'') ! 1)) ds ws rest)
   \<and> length (trackList (js ''5. Track Five\<newline>Track Six'')) = 2
   \<and> trackList (js ''5. Track Five\<newline>Track Six'') ! 1 = \<lparr>number = Finite 2, name = js ''Track Six''\<rparr>"
proof -
  let ?T = "js ''5. Track Five\<newline>Track Six''"
  have r: "retained ?T = [js ''5. Track Five'', js ''Track Six'']" by (simp add: ev)
  have t: "trim (js ''Track Six'') = js ''Track Six''" by (simp add: ev)
  have a: "normalizeText ?T = Found (trackList ?T)" by (simp add: normalizeText_def unknown_def js_def)
  have b: "1 < length (retained ?T)" by (simp add: r)
  have c: "\<forall>ds ws rest. \<not> matches_pattern (trim (retained ?T ! 1)) ds ws rest"
    by (simp add: r t no_pattern_Track_Six)
  from fallback_position a b c
  have "length (trackList ?T) = length (retained ?T) \<and>
        trackList ?T ! 1 = \<lparr>number = Finite (1 + 1), name = trim (retained ?T ! 1)\<rparr>"
    by blast
  then show ?thesis using a b c by (simp add: r t)
qed

text \<open>
  The digits \<^verbatim>\<open>9007199254740993\<close> denote \<open>2 ^ 53 + 1\<close>, which is no double: the
  position is \<open>2 ^ 53\<close>.
\<close>

theorem position_rounded:
  "normalizeText (js ''9007199254740993. Song'') =
     Found [\<lparr>number = Finite 9007199254740992, name = js ''Song''\<rparr>]"
  by (simp add: ev_digits toNumber_rounds_down)

text \<open>
  C5, as amended. In a \<open>Found\<close> outcome, a retained line whose trimmed text matches
  \<^verbatim>\<open>^(\d+)\.\s*(.+)$\<close> gives, at the rank of the line, the track whose position is
  \<^verbatim>\<open>parseInt\<close> of the leading digits and whose name is the trimmed remainder after the
  period. The position is the integer the digits denote when that is below \<open>2 ^ 53\<close>; from
  there on it is a nearest double, at most half the spacing of the doubles away from that
  integer, or \<^verbatim>\<open>Infinity\<close> past the range of the doubles. The three numbered lines of the
  example give the tracks 1, 2 and 3 in the order of appearance.
\<close>

theorem numbered_position:
  "(\<forall>text ts i ds ws rest.
      normalizeText text = Found ts \<longrightarrow> i < length (retained text) \<longrightarrow>
      matches_pattern (trim (retained text ! i)) ds ws rest \<longrightarrow>
      length ts = length (retained text) \<and>
      ts ! i = \<lparr>number = parseInt ds, name = trim (ws @ rest)\<rparr> \<and>
      (digitsValue ds < 2 ^ 53 \<longrightarrow> number (ts ! i) = Finite (digitsValue ds)) \<and>
      (2 ^ 53 \<le> digitsValue ds \<longrightarrow>
         (\<exists>m. 2 ^ (floorlog 2 (digitsValue ds) - 53) dvd m \<and>
              m \<le> digitsValue ds + 2 ^ (floorlog 2 (digitsValue ds) - 54) \<and>
              digitsValue ds \<le> m + 2 ^ (floorlog 2 (digitsValue ds) - 54) \<and>
              number (ts ! i) = (if 2 ^ 1024 \<le> m then Infinity else Finite m))))
   \<and> normalizeText (js ''1. Come Together\<newline>2. Something\<newline>3. Maxwell's Silver Hammer'') =
       Found [\<lparr>number = Finite 1, name = js ''Come Together''\<rparr>,
              \<lparr>number = Finite 2, name = js ''Something''\<rparr>,
              \<lparr>number = Finite 3, name = js ''Maxwell's Silver Hammer''\<rparr>]"
proof (intro conjI allI impI)
  fix raw ts i ds ws rest
  assume f: "normalizeText raw = Found ts" and i: "i < length (retained raw)"
    and m: "matches_pattern (trim (retained raw ! i)) ds ws rest"
  have ts: "ts = trackList raw" using f by (simp add: normalizeText_def split: if_splits)
  show "length ts = length (retained raw)" using ts by (simp add: length_trackList)
  have "trim (retained raw ! i) \<noteq> []" using i retained_trim nth_mem by blast
  then show p: "ts ! i = \<lparr>number = parseInt ds, name = trim (ws @ rest)\<rparr>"
    using ts i m by (simp add: nth_trackList parse_line_numbered)
  then have n: "number (ts ! i) = toNumber (digitsValue ds)" by (simp add: parseInt_def)
  {
    assume "digitsValue ds < 2 ^ 53"
    then show "number (ts ! i) = Finite (digitsValue ds)"
      using n by (simp add: toNumber_exact)
  }
  {
    assume "2 ^ 53 \<le> digitsValue ds"
    then show "\<exists>m. 2 ^ (floorlog 2 (digitsValue ds) - 53) dvd m \<and>
              m \<le> digitsValue ds + 2 ^ (floorlog 2 (digitsValue ds) - 54) \<and>
              digitsValue ds \<le> m + 2 ^ (floorlog 2 (digitsValue ds) - 54) \<and>
              number (ts ! i) = (if 2 ^ 1024 \<le> m then Infinity else Finite m)"
      unfolding n by (rule toNumber_nearest)
  }
next
  show "normalizeText (js ''1. Come Together\<newline>2. Something\<newline>3. Maxwell's Silver Hammer'') =
       Found [\<lparr>number = Finite 1, name = js ''Come Together''\<rparr>,
              \<lparr>number = Finite 2, name = js ''Something''\<rparr>,
              \<lparr>number = Finite 3, name = js ''Maxwell's Silver Hammer''\<rparr>]"
    by (simp add: ev)
qed

theorem numbered_position_witness:
  "normalizeText (js ''12.  Golden Slumbers '') = Found (trackList (js ''12.  Golden Slumbers ''))
   \<and> 0 < length (retained (js ''12.  Golden Slumbers ''))
   \<and> matches_pattern (trim (retained (js ''12.  Golden Slumbers '') ! 0)) (js ''12'') (js ''  '') (js ''Golden Slumbers'')
   \<and> digitsValue (js ''12'') < 2 ^ 53
   \<and> length (trackList (js ''12.  Golden Slumbers '')) = 1
   \<and> trackList (js ''12.  Golden Slumbers '') ! 0 = \<lparr>number = Finite 12, name = js ''Golden Slumbers''\<rparr>
   \<and> normalizeText (js ''9007199254740995. Song'') = Found (trackList (js ''9007199254740995. Song''))
   \<and> 0 < length (retained (js ''9007199254740995. Song''))
   \<and> matches_pattern (trim (retained (js ''9007199254740995. Song'') ! 0))
        (js ''9007199254740995'') (js '' '') (js ''Song'')
   \<and> 2 ^ 53 \<le> digitsValue (js ''9007199254740995'')
   \<and> trackList (js ''9007199254740995. Song'') ! 0 =
        \<lparr>number = Finite 9007199254740996, name = js ''Song''\<rparr>
   \<and> (\<exists>m. 2 ^ (floorlog 2 (digitsValue (js ''9007199254740995'')) - 53) dvd m \<and>
            m \<le> digitsValue (js ''9007199254740995'') + 2 ^ (floorlog 2 (digitsValue (js ''9007199254740995'')) - 54) \<and>
            digitsValue (js ''9007199254740995'') \<le> m + 2 ^ (floorlog 2 (digitsValue (js ''9007199254740995'')) - 54) \<and>
            number (trackList (js ''9007199254740995. Song'') ! 0) =
              (if 2 ^ 1024 \<le> m then Infinity else Finite m))"
proof -
  let ?T = "js ''12.  Golden Slumbers ''"
  have r: "retained ?T = [?T]" by (simp add: ev)
  have t: "trim ?T = js ''12.  Golden Slumbers''" by (simp add: ev)
  have a: "normalizeText ?T = Found (trackList ?T)" by (simp add: normalizeText_def unknown_def js_def)
  have b: "0 < length (retained ?T)" by (simp add: r)
  have c: "matches_pattern (trim (retained ?T ! 0)) (js ''12'') (js ''  '') (js ''Golden Slumbers'')"
    by (simp add: r t) (simp add: matches_pattern_def ev)
  have d: "digitsValue (js ''12'') < 2 ^ 53" by (simp add: ev)
  have e: "trim (js ''  '' @ js ''Golden Slumbers'') = js ''Golden Slumbers''" by (simp add: ev)
  have v: "digitsValue (js ''12'') = 12" by (simp add: ev)
  from numbered_position a b c d
  have "length (trackList ?T) = length (retained ?T) \<and>
        trackList ?T ! 0 = \<lparr>number = parseInt (js ''12''), name = trim (js ''  '' @ js ''Golden Slumbers'')\<rparr> \<and>
        number (trackList ?T ! 0) = Finite (digitsValue (js ''12''))"
    by blast
  then have 1: "length (trackList ?T) = 1 \<and> trackList ?T ! 0 = \<lparr>number = Finite 12, name = js ''Golden Slumbers''\<rparr>"
    unfolding e v r by (cases "trackList ?T ! 0") simp
  let ?U = "js ''9007199254740995. Song''"
  let ?D = "js ''9007199254740995''"
  have r': "retained ?U = [?U]" by (simp add: ev_digits)
  have t': "trim ?U = ?U" by (simp add: ev_digits)
  have a': "normalizeText ?U = Found (trackList ?U)" by (simp add: normalizeText_def unknown_def js_def)
  have b': "0 < length (retained ?U)" by (simp add: r')
  have c': "matches_pattern (trim (retained ?U ! 0)) ?D (js '' '') (js ''Song'')"
    by (simp add: r' t') (simp add: matches_pattern_def ev_digits)
  have v': "digitsValue ?D = 9007199254740995" by (simp add: ev_digits)
  have d': "2 ^ 53 \<le> digitsValue ?D" unfolding v' by simp
  have e': "trim (js '' '' @ js ''Song'') = js ''Song''" by (simp add: ev_digits)
  from numbered_position a' b' c' d'
  have 2: "trackList ?U ! 0 = \<lparr>number = parseInt ?D, name = trim (js '' '' @ js ''Song'')\<rparr>"
    and 3: "\<exists>m. 2 ^ (floorlog 2 (digitsValue ?D) - 53) dvd m \<and>
            m \<le> digitsValue ?D + 2 ^ (floorlog 2 (digitsValue ?D) - 54) \<and>
            digitsValue ?D \<le> m + 2 ^ (floorlog 2 (digitsValue ?D) - 54) \<and>
            number (trackList ?U ! 0) = (if 2 ^ 1024 \<le> m then Infinity else Finite m)"
    by blast+
  have 4: "trackList ?U ! 0 = \<lparr>number = Finite 9007199254740996, name = js ''Song''\<rparr>"
    unfolding 2 e' parseInt_def v' toNumber_rounds_up by simp
  show ?thesis using a b c d 1 a' b' c' d' 3 4 by blast
qed

text \<open>
  C6. A text that contains \<^verbatim>\<open>don't have information\<close> or \<^verbatim>\<open>don't know\<close> anywhere is
  classified \<open>NotFound\<close>, and no line is parsed: after a lookup that received such a text
  the component shows the not-found message and its track list is empty. The sentence the
  prompt asks for, with any text around it, is such a text. The match is on the exact code
  units: a phrase in upper case is not found, and its line is parsed.
\<close>

theorem not_found_classification:
  "((\<exists>pre post. text = pre @ js ''don't have information'' @ post) \<or>
    (\<exists>pre post. text = pre @ js ''don't know'' @ post) \<longrightarrow>
      normalizeText text = NotFound \<and>
      (trim (apiKey s) \<noteq> [] \<and> trim (artist s) \<noteq> [] \<and> trim (album s) \<noteq> [] \<and>
       provider (apiKey s) (buildPrompt (artist s) (album s)) = Response True (Json data) \<and>
       extract_text data = Inr (JString text) \<longrightarrow>
         fetchTracks engine provider s =
           s\<lparr>loading := False,
             error := js ''Album not found. Please check the artist and album name.'',
             tracks := []\<rparr>))
   \<and> normalizeText (before @ js ''I don't have information about this album.'' @ after) = NotFound
   \<and> normalizeText (js ''I DON'T KNOW'') = Found [\<lparr>number = Finite 1, name = js ''I DON'T KNOW''\<rparr>]"
proof (intro conjI impI)
  assume "(\<exists>pre post. text = pre @ js ''don't have information'' @ post) \<or>
    (\<exists>pre post. text = pre @ js ''don't know'' @ post)"
  then have u: "unknown text" by (simp add: unknown_iff)
  then show n: "normalizeText text = NotFound" by (simp add: normalizeText_def)
  assume "trim (apiKey s) \<noteq> [] \<and> trim (artist s) \<noteq> [] \<and> trim (album s) \<noteq> [] \<and>
       provider (apiKey s) (buildPrompt (artist s) (album s)) = Response True (Json data) \<and>
       extract_text data = Inr (JString text)"
  then show "fetchTracks engine provider s =
           s\<lparr>loading := False,
             error := js ''Album not found. Please check the artist and album name.'',
             tracks := []\<rparr>"
    using n by (simp add: fetchTracks_def lookupTracks_def)
next
  show "normalizeText (before @ js ''I don't have information about this album.'' @ after) = NotFound"
    using sentinel_unknown by (simp add: normalizeText_def)
next
  show "normalizeText (js ''I DON'T KNOW'') = Found [\<lparr>number = Finite 1, name = js ''I DON'T KNOW''\<rparr>]"
    by (simp add: ev)
qed

theorem not_found_classification_witness:
  "((\<exists>pre post. js ''Sorry, I don't know that one.'' = pre @ js ''don't have information'' @ post) \<or>
    (\<exists>pre post. js ''Sorry, I don't know that one.'' = pre @ js ''don't know'' @ post))
   \<and> normalizeText (js ''Sorry, I don't know that one.'') = NotFound
   \<and> fetchTracks v8 (answering (Response True (Json (gemini_reply (js ''Sorry, I don't know that one.'')))))
        abbey_road =
        abbey_road\<lparr>loading := False,
             error := js ''Album not found. Please check the artist and album name.'',
             tracks := []\<rparr>"
proof -
  let ?t = "js ''Sorry, I don't know that one.''"
  let ?p = "answering (Response True (Json (gemini_reply ?t)))"
  have "?t = js ''Sorry, I '' @ js ''don't know'' @ js '' that one.''" by (simp add: js_def)
  then have a: "(\<exists>pre post. ?t = pre @ js ''don't have information'' @ post) \<or>
    (\<exists>pre post. ?t = pre @ js ''don't know'' @ post)" by blast
  have b: "?p (apiKey abbey_road) (buildPrompt (artist abbey_road) (album abbey_road)) =
        Response True (Json (gemini_reply ?t))" by (simp add: answering_def)
  from not_found_classification[of ?t abbey_road ?p "gemini_reply ?t" v8] a b abbey_road_valid
    extract_text_gemini_reply[of ?t]
  have "normalizeText ?t = NotFound \<and> fetchTracks v8 ?p abbey_road =
        abbey_road\<lparr>loading := False,
             error := js ''Album not found. Please check the artist and album name.'',
             tracks := []\<rparr>" by blast
  then show ?thesis using a by blast
qed

text \<open>The prompt of \<^verbatim>\<open>src/App.jsx\<close> does not speak of editions.\<close>

lemma prompt_App_no_edition:
  "\<not> str_includes (buildPrompt_App (js ''The Beatles'') (js ''Abbey Road'')) (js ''standard'')"
  by (simp add: buildPrompt_App_def js_def quot_def)

text \<open>
  C7. For every artist and album the prompt is one string that embeds both as they are (the
  album between double quotes, then \<^verbatim>\<open>by\<close> and the artist), asks for the original standard
  release and excludes deluxe, remastered, live and bonus editions, and ends with the instruction
  to reply exactly with the quoted sentence \<^verbatim>\<open>I don't have information about this album.\<close>,
  which the normalizer classifies as \<open>NotFound\<close>.
\<close>

theorem prompt_contents:
  "str_includes (buildPrompt artistName albumName) (js ''album '' @ quot @ albumName @ quot @ js '' by '' @ artistName @ js ''.'')
   \<and> str_includes (buildPrompt artistName albumName) artistName
   \<and> str_includes (buildPrompt artistName albumName) albumName
   \<and> str_includes (buildPrompt artistName albumName)
        (js ''original standard release (not deluxe, remastered, live, or bonus editions)'')
   \<and> str_includes (buildPrompt artistName albumName)
        (js ''If you are not confident in the exact official tracklist, reply exactly with:'')
   \<and> (\<exists>pre. buildPrompt artistName albumName = pre @ quot @ js ''I don't have information about this album.'' @ quot)
   \<and> normalizeText (js ''I don't have information about this album.'') = NotFound"
proof (intro conjI)
  let ?P = "buildPrompt artistName albumName"
  let ?head = "js ''You are a music database assistant.\<newline>'' @ indent @ js ''List the official tracklist for the studio ''"
  let ?req = "indent @ js ''Requirements:\<newline>'' @ indent"
  let ?mid = "indent @ js ''- Preserve the correct track order\<newline>'' @
     indent @ js ''- Provide ONLY the track names\<newline>'' @
     indent @ js ''- One track per line\<newline>'' @
     indent @ js ''- Number each track starting from 1\<newline>'' @
     indent @ js ''- Do NOT include any commentary, years, or extra text\<newline>'' @ indent"
  let ?std = "js ''original standard release (not deluxe, remastered, live, or bonus editions)''"
  let ?conf = "js ''If you are not confident in the exact official tracklist, reply exactly with:''"
  let ?sent = "quot @ js ''I don't have information about this album.'' @ quot"
  let ?emb = "js ''album '' @ quot @ albumName @ quot @ js '' by '' @ artistName @ js ''.''"
  have e: "?P = ?head @ ?emb @ js ''\<newline>'' @ ?req @ js ''- Use the '' @ ?std @ js ''\<newline>'' @ ?mid @ ?conf @
              js ''\<newline>'' @ indent @ ?sent"
    by (simp add: buildPrompt_def js_def)
  show "str_includes ?P ?emb" unfolding e by (rule str_includes_mid)
  have "?P = (?head @ js ''album '' @ quot @ albumName @ quot @ js '' by '') @ artistName @
        (js ''.'' @ js ''\<newline>'' @ ?req @ js ''- Use the '' @ ?std @ js ''\<newline>'' @ ?mid @ ?conf @
              js ''\<newline>'' @ indent @ ?sent)" unfolding e by simp
  then show "str_includes ?P artistName" using str_includes_mid by metis
  have "?P = (?head @ js ''album '' @ quot) @ albumName @
        (quot @ js '' by '' @ artistName @ js ''.'' @ js ''\<newline>'' @ ?req @ js ''- Use the '' @ ?std @ js ''\<newline>'' @ ?mid @ ?conf @
              js ''\<newline>'' @ indent @ ?sent)" unfolding e by simp
  then show "str_includes ?P albumName" using str_includes_mid by metis
  have "?P = (?head @ ?emb @ js ''\<newline>'' @ ?req @ js ''- Use the '') @ ?std @ (js ''\<newline>'' @ ?mid @ ?conf @
              js ''\<newline>'' @ indent @ ?sent)" unfolding e by simp
  then show "str_includes ?P ?std" using str_includes_mid by metis
  have "?P = (?head @ ?emb @ js ''\<newline>'' @ ?req @ js ''- Use the '' @ ?std @ js ''\<newline>'' @ ?mid) @ ?conf @
              (js ''\<newline>'' @ indent @ ?sent)" unfolding e by simp
  then show "str_includes ?P ?conf" using str_includes_mid by metis
  have "?P = (?head @ ?emb @ js ''\<newline>'' @ ?req @ js ''- Use the '' @ ?std @ js ''\<newline>'' @ ?mid @ ?conf @
              js ''\<newline>'' @ indent) @ ?sent" unfolding e by simp
  then show "\<exists>pre. ?P = pre @ ?sent" by blast
  show "normalizeText (js ''I don't have information about this album.'') = NotFound"
    using sentinel_unknown[of "[]" "[]"] by (simp add: normalizeText_def)
qed

text \<open>
  C8. When the text is not classified \<open>NotFound\<close> and no line is retained, the outcome is
  \<open>Found []\<close>. The empty text has the single line \<open>[]\<close>, which is blank: its outcome is
  \<open>Found []\<close>.
\<close>

theorem normalize_empty:
  "(\<not> unknown text \<and> retained text = [] \<longrightarrow> normalizeText text = Found [])
   \<and> normalizeText [] = Found []"
  by (simp add: normalizeText_def unknown_def trackList_def retained_def trim_def js_def enumerate_eq_zip)

theorem normalize_empty_witness:
  "\<not> unknown (js '' \<newline>\<newline>  '') \<and> retained (js '' \<newline>\<newline>  '') = []
   \<and> normalizeText (js '' \<newline>\<newline>  '') = Found []"
proof -
  have a: "\<not> unknown (js '' \<newline>\<newline>  '')" by (simp add: ev)
  have b: "retained (js '' \<newline>\<newline>  '') = []" by (simp add: ev)
  from normalize_empty[of "js '' \<newline>\<newline>  ''"] a b show ?thesis by blast
qed

text \<open>
  On a numbered line that begins with white space the names differ: \<^verbatim>\<open>src/App.jsx\<close>
  applies its pattern to the line before trimming, and keeps the number in the name.
\<close>

theorem names_diverge_leading_space:
  "normalizeText (js '' 1. Foo'') = Found [\<lparr>number = Finite 1, name = js ''Foo''\<rparr>]
   \<and> trackList_App (js '' 1. Foo'') = [js ''1. Foo'']"
  by (simp add: ev)

text \<open>
  C9, as amended. For a text that is not classified \<open>NotFound\<close> and whose retained lines
  are all regular, the names \<^verbatim>\<open>src/App.jsx\<close> produces are the names of the tracks the other
  normalizer produces, in the same order. On a retained line that begins with white space and
  whose trimmed text matches the pattern, \<^verbatim>\<open>src/App.jsx\<close> has the whole trimmed line as the
  name, where the other normalizer has the remainder after the number.
\<close>

theorem names_agree:
  "(normalizeText text = Found ts \<and> (\<forall>line \<in> set (retained text). regular_line line) \<longrightarrow>
      trackList_App text = map name ts)
   \<and> (trim l \<noteq> [] \<and> takeWhile isSpace l \<noteq> [] \<and> match_track (trim l) = Some (ds, rest) \<longrightarrow>
        trim (strip_number l) = trim l \<and> name (parse_line i l) = rest \<and>
        length rest < length (trim l))"
proof -
  have A: "normalizeText text = Found ts \<and> (\<forall>line \<in> set (retained text). regular_line line) \<longrightarrow>
      trackList_App text = map name ts"
  proof (rule impI)
    assume a: "normalizeText text = Found ts \<and> (\<forall>line \<in> set (retained text). regular_line line)"
    then have ts: "ts = trackList text" by (simp add: normalizeText_def split: if_splits)
    show "trackList_App text = map name ts" unfolding ts using a by (simp add: names_agree_if)
  qed
  have B: "trim l \<noteq> [] \<and> takeWhile isSpace l \<noteq> [] \<and> match_track (trim l) = Some (ds, rest) \<longrightarrow>
        trim (strip_number l) = trim l \<and> name (parse_line i l) = rest \<and>
        length rest < length (trim l)"
    using indented_names[of l ds rest i] by blast
  show ?thesis using A B by (rule conjI)
qed

theorem names_agree_witness:
  "normalizeText (js ''1. Come Together \<newline>\<newline>Something'') =
     Found [\<lparr>number = Finite 1, name = js ''Come Together''\<rparr>, \<lparr>number = Finite 2, name = js ''Something''\<rparr>]
   \<and> list_all regular_line (retained (js ''1. Come Together \<newline>\<newline>Something''))
   \<and> trackList_App (js ''1. Come Together \<newline>\<newline>Something'') = [js ''Come Together'', js ''Something'']
   \<and> trim (js ''  2. Something'') \<noteq> [] \<and> takeWhile isSpace (js ''  2. Something'') \<noteq> []
   \<and> match_track (trim (js ''  2. Something'')) = Some (js ''2'', js ''Something'')
   \<and> trim (strip_number (js ''  2. Something'')) = js ''2. Something''
   \<and> name (parse_line 0 (js ''  2. Something'')) = js ''Something''"
proof -
  let ?T = "js ''1. Come Together \<newline>\<newline>Something''"
  let ?ts = "[\<lparr>number = Finite 1, name = js ''Come Together''\<rparr>, \<lparr>number = Finite 2, name = js ''Something''\<rparr>]"
  let ?l = "js ''  2. Something''"
  have a: "normalizeText ?T = Found ?ts" by (simp add: ev)
  have r: "retained ?T = [js ''1. Come Together '', js ''Something'']" by (simp add: ev)
  have r1: "regular_line (js ''1. Come Together '')"
    by (simp add: regular_line_def ev)
  have r2: "regular_line (js ''Something'')"
    by (simp add: regular_line_def ev)
  have b: "\<forall>line \<in> set (retained ?T). regular_line line" using r r1 r2 by simp
  from names_agree[of ?T ?ts] a b have 1: "trackList_App ?T = map name ?ts" by blast
  have t: "trim ?l = js ''2. Something''" by (simp add: ev)
  have c: "trim ?l \<noteq> []" "takeWhile isSpace ?l \<noteq> []" by (simp_all add: ev)
  have d: "match_track (trim ?l) = Some (js ''2'', js ''Something'')" by (simp add: ev)
  from names_agree[of _ _ ?l "js ''2''" "js ''Something''" 0] c d
  have 2: "trim (strip_number ?l) = trim ?l \<and> name (parse_line 0 ?l) = js ''Something''"
    by blast
  show ?thesis using a b 1 c d 2 by (simp add: list_all_iff t)
qed

end
